theory Spec2Isabelle
  imports Complex_Main "HOL-Library.Multiset"
begin

section \<open>The neighbour graph and diffusion geometry of scanpy.neighbors\<close>

text \<open>
  A shallow embedding of \<^verbatim>\<open>src/scanpy/neighbors/__init__.py\<close>. Python floats are
  modelled by the reals. Where the program leaves the finite numbers (a division by
  zero, the square root of a negative number) the model says so explicitly: either
  with the extended values of type \<open>fval\<close> (diffusion pseudotime) or with the outcome
  \<open>Unmodelled\<close>, which is never an exception of the program but marks a run this
  real-valued model does not follow. Rounding is not modelled.
\<close>

subsection \<open>Errors and values\<close>

datatype error =
    ValueError string
  | AttributeError string
  | KeyError string
  | IndexError
  | TypeError
  | Unmodelled string

text \<open>A float that may be infinite or not a number.\<close>

datatype fval = Fin real | PInf | NInf | NaN

text \<open>
  A dense matrix is the list of its rows. A sparse matrix (csr, lil) is the list of its
  rows too, each row the stored (column, value) pairs in storage order; a column that
  is not stored reads as zero.
\<close>

type_synonym matrix = "real list list"
type_synonym csr = "(nat \<times> real) list list"

datatype ndmat = Dense matrix | Sparse csr

subsection \<open>The Neighbors object\<close>

text \<open>
  The attributes of \<^verbatim>\<open>Neighbors\<close> that the modelled methods read or write. An
  attribute \<^verbatim>\<open>self._a\<close> is the field \<open>s_a\<close>; \<open>None\<close> is Python's \<^verbatim>\<open>None\<close>,
  except for \<open>s_Z\<close> and \<open>s_connected_components\<close>, which \<^verbatim>\<open>__init__\<close> does not set:
  there \<open>None\<close> means that the attribute does not exist.
\<close>

record neighbors_obj =
  adata_n_obs :: nat
  adata_n_vars :: nat
  adata_X :: "real list list"
  s_iroot :: "nat option"
  s_knn :: "bool option"
  s_n_neighbors :: "nat option"
  s_distances :: "ndmat option"
  s_connectivities :: "ndmat option"
  s_transitions_sym :: "matrix option"
  s_Z :: "matrix option"
  s_number_connected_components :: "nat option"
  s_connected_components :: "(nat \<times> nat list) option"
  s_eigen_values :: "real list option"
  s_eigen_basis :: "real list list option"
  s_pseudotime :: "fval list option"

text \<open>
  \<^verbatim>\<open>Neighbors(adata)\<close> for an \<^verbatim>\<open>adata\<close> that holds no neighbours, no diffusion map
  and no root: every optional attribute is \<^verbatim>\<open>None\<close> and \<^verbatim>\<open>Z\<close> does not exist.
\<close>

definition init_neighbors :: "nat \<Rightarrow> nat \<Rightarrow> real list list \<Rightarrow> neighbors_obj" where
  "init_neighbors n d x =
     \<lparr> adata_n_obs = n, adata_n_vars = d, adata_X = x, s_iroot = None, s_knn = None,
       s_n_neighbors = None, s_distances = None, s_connectivities = None,
       s_transitions_sym = None, s_Z = None, s_number_connected_components = None,
       s_connected_components = None, s_eigen_values = None, s_eigen_basis = None,
       s_pseudotime = None \<rparr>"

subsection \<open>Dense matrix algebra (numpy)\<close>

definition todense :: "nat \<Rightarrow> csr \<Rightarrow> matrix" where
  "todense n D = map (\<lambda>i. map (\<lambda>j. sum_list (map snd (filter (\<lambda>e. fst e = j) (D ! i)))) [0..<n]) [0..<n]"

definition toarray :: "nat \<Rightarrow> ndmat \<Rightarrow> matrix" where
  "toarray n W = (case W of Dense A \<Rightarrow> A | Sparse D \<Rightarrow> todense n D)"

text \<open>\<^verbatim>\<open>W.sum(axis=0)\<close>: the sums of the columns of an n x n matrix.\<close>

definition sum_axis0 :: "nat \<Rightarrow> matrix \<Rightarrow> real list" where
  "sum_axis0 n W = map (\<lambda>j. \<Sum>i\<leftarrow>[0..<n]. W ! i ! j) [0..<n]"

text \<open>\<^verbatim>\<open>np.diag(v)\<close> and \<^verbatim>\<open>spdiags(v, 0, n, n)\<close>: the diagonal matrix of a vector.\<close>

definition diag :: "nat \<Rightarrow> real list \<Rightarrow> matrix" where
  "diag n v = map (\<lambda>i. map (\<lambda>j. if i = j then v ! i else 0) [0..<n]) [0..<n]"

text \<open>\<^verbatim>\<open>np.diag(Z)\<close> of a matrix: its diagonal.\<close>

definition diagonal :: "nat \<Rightarrow> matrix \<Rightarrow> real list" where
  "diagonal n A = map (\<lambda>i. A ! i ! i) [0..<n]"

text \<open>\<^verbatim>\<open>A @ B\<close> for n x n matrices.\<close>

definition matmul :: "nat \<Rightarrow> matrix \<Rightarrow> matrix \<Rightarrow> matrix" where
  "matmul n A B = map (\<lambda>i. map (\<lambda>j. \<Sum>k\<leftarrow>[0..<n]. A ! i ! k * B ! k ! j) [0..<n]) [0..<n]"

definition reciprocal :: "real list \<Rightarrow> real list" where
  "reciprocal v = map (\<lambda>x. 1 / x) v"

subsection \<open>compute_transitions and the transitions property\<close>

text \<open>
  \<^verbatim>\<open>compute_transitions\<close>. The dense and the sparse branch compute the same products,
  so the model works on the matrix of values. \<^verbatim>\<open>1.0/q\<close> and \<^verbatim>\<open>1.0/z\<close> are infinite
  for a zero sum and \<^verbatim>\<open>np.sqrt\<close> is not a number for a negative one; numpy warns and
  goes on, the model stops with \<open>Unmodelled\<close>. Both sums are taken along axis 0, as in
  the source.
\<close>

definition compute_transitions :: "bool \<Rightarrow> neighbors_obj \<Rightarrow> error + neighbors_obj" where
  "compute_transitions density_normalize s =
     (case s_connectivities s of
        None \<Rightarrow> Inl (AttributeError ''sum'')
      | Some Wm \<Rightarrow>
          let n = adata_n_obs s;
              W = toarray n Wm;
              q = sum_axis0 n W
          in if density_normalize \<and> (\<exists>x \<in> set q. x = 0) then Inl (Unmodelled ''1.0/q is infinite'')
             else
               let K = (if density_normalize
                        then matmul n (matmul n (diag n (reciprocal q)) W) (diag n (reciprocal q))
                        else W);
                   c = sum_axis0 n K
               in if \<exists>x \<in> set c. x \<le> 0 then Inl (Unmodelled ''1.0/z is infinite or not a number'')
                  else
                    let z = map sqrt c;
                        Zm = diag n (reciprocal z)
                    in Inr (s\<lparr> s_Z := Some Zm,
                               s_transitions_sym := Some (matmul n (matmul n Zm K) Zm) \<rparr>))"

text \<open>
  The property \<^verbatim>\<open>transitions\<close>. Its first statement reads \<^verbatim>\<open>self.Z\<close>, an attribute
  that only \<^verbatim>\<open>compute_transitions\<close> creates. \<^verbatim>\<open>Z.power(-1)\<close> and
  \<^verbatim>\<open>np.diag(1./np.diag(Z))\<close> both invert the diagonal.
\<close>

definition transitions :: "neighbors_obj \<Rightarrow> error + matrix" where
  "transitions s =
     (case s_Z s of
        None \<Rightarrow> Inl (AttributeError ''Z'')
      | Some Zm \<Rightarrow>
          (case s_transitions_sym s of
             None \<Rightarrow> Inl TypeError
           | Some T \<Rightarrow>
               let n = adata_n_obs s;
                   Zinv = diag n (reciprocal (diagonal n Zm))
               in Inr (matmul n (matmul n Zm T) Zinv)))"

text \<open>
  The connectivity matrices of the specification: symmetric, with weights in [0, 1]
  (its data model and glossary). A predicate for the hypotheses of theorems, not code.
\<close>

definition valid_connectivities :: "nat \<Rightarrow> matrix \<Rightarrow> bool" where
  "valid_connectivities n W \<longleftrightarrow>
     list_all (\<lambda>i. list_all (\<lambda>j. W ! i ! j = W ! j ! i \<and> 0 \<le> W ! i ! j \<and> W ! i ! j \<le> 1) [0..<n]) [0..<n]"

subsection \<open>compute_eigen\<close>

text \<open>
  \<^verbatim>\<open>compute_eigen\<close>. The eigensolvers of scipy are parameters: \<open>eigh\<close> returns all
  eigenpairs in ascending order, \<open>eigsh M k which\<close> the \<open>k\<close> eigenpairs of largest
  (\<open>which = True\<close>, 'LM') or smallest magnitude. The message of the state error is the
  source's, without its backquotes.
\<close>

definition compute_eigen ::
  "(matrix \<Rightarrow> real list \<times> real list list) \<Rightarrow> (matrix \<Rightarrow> int \<Rightarrow> bool \<Rightarrow> real list \<times> real list list) \<Rightarrow>
   int \<Rightarrow> string \<Rightarrow> neighbors_obj \<Rightarrow> error + neighbors_obj" where
  "compute_eigen eigh eigsh n_comps sort_order s =
     (case s_transitions_sym s of
        None \<Rightarrow> Inl (ValueError ''Run .compute_transitions first.'')
      | Some M \<Rightarrow>
          let (evals, evecs) =
                (if n_comps = 0 then eigh M
                 else eigsh M (min (int (length M) - 1) n_comps) (sort_order = ''decrease''));
              (evals, evecs) =
                (if sort_order = ''decrease'' then (rev evals, map rev evecs) else (evals, evecs))
          in Inr (s\<lparr> s_eigen_values := Some evals, s_eigen_basis := Some evecs \<rparr>))"

subsection \<open>Traversals and numpy helpers\<close>

text \<open>A loop whose body may raise: the first error ends it.\<close>

fun mapM_err :: "('a \<Rightarrow> error + 'b) \<Rightarrow> 'a list \<Rightarrow> error + 'b list" where
  "mapM_err f [] = Inr []"
| "mapM_err f (x # xs) =
     (case f x of
        Inl e \<Rightarrow> Inl e
      | Inr y \<Rightarrow> (case mapM_err f xs of Inl e \<Rightarrow> Inl e | Inr ys \<Rightarrow> Inr (y # ys)))"

text \<open>
  \<^verbatim>\<open>np.argsort\<close>: the positions in ascending order of their values. numpy leaves the
  order of equal values open; the model takes the stable one.
\<close>

definition argsort :: "real list \<Rightarrow> nat list" where
  "argsort xs = sort_key (\<lambda>i. xs ! i) [0..<length xs]"

text \<open>
  \<^verbatim>\<open>a[i, 1:] = xs\<close> for a slice of length \<open>m\<close>: numpy accepts a right-hand side of
  length \<open>m\<close>, repeats one of length 1, and raises for any other length.
\<close>

definition assign_row :: "nat \<Rightarrow> 'a list \<Rightarrow> error + 'a list" where
  "assign_row m xs =
     (if length xs = m then Inr xs
      else if length xs = 1 then Inr (replicate m (hd xs))
      else Inl (ValueError ''could not broadcast input array''))"

text \<open>\<^verbatim>\<open>np.median\<close> of a non-empty vector.\<close>

definition median :: "real list \<Rightarrow> real" where
  "median xs =
     (let s = sort xs; n = length xs
      in if odd n then s ! (n div 2) else (s ! (n div 2 - 1) + s ! (n div 2)) / 2)"

subsection \<open>Sparse rows (scipy.sparse)\<close>

text \<open>\<^verbatim>\<open>D[i].nonzero()[1]\<close>: the columns of the stored entries that are not zero.\<close>

definition nonzero_cols :: "(nat \<times> real) list \<Rightarrow> nat list" where
  "nonzero_cols row = map fst (filter (\<lambda>e. snd e \<noteq> 0) row)"

text \<open>\<^verbatim>\<open>D[i][0, c]\<close>: the value at a column, the sum of what is stored there.\<close>

definition getitem_row :: "(nat \<times> real) list \<Rightarrow> nat \<Rightarrow> real" where
  "getitem_row row c = sum_list (map snd (filter (\<lambda>e. fst e = c) row))"

text \<open>The canonical form of a row: columns ascending, duplicates summed.\<close>

definition sum_duplicates :: "(nat \<times> real) list \<Rightarrow> (nat \<times> real) list" where
  "sum_duplicates row = map (\<lambda>c. (c, getitem_row row c)) (sort (remdups (map fst row)))"

text \<open>\<^verbatim>\<open>eliminate_zeros\<close> on a row.\<close>

definition eliminate_zeros_row :: "(nat \<times> real) list \<Rightarrow> (nat \<times> real) list" where
  "eliminate_zeros_row row = filter (\<lambda>e. snd e \<noteq> 0) row"

text \<open>\<^verbatim>\<open>coo.tocsr()\<close> of the (row, column, value) triples of an n x n matrix.\<close>

definition tocsr :: "nat \<Rightarrow> (nat \<times> nat \<times> real) list \<Rightarrow> csr" where
  "tocsr n ts =
     map (\<lambda>i. sum_duplicates (map snd (filter (\<lambda>t. fst t = i) ts))) [0..<n]"

text \<open>\<^verbatim>\<open>W[i, j]\<close> and \<^verbatim>\<open>W[i, j] = x\<close> on a lil matrix. An assigned zero is not stored.\<close>

definition lil_get :: "csr \<Rightarrow> nat \<Rightarrow> nat \<Rightarrow> real" where
  "lil_get W i j = getitem_row (W ! i) j"

definition lil_set :: "csr \<Rightarrow> nat \<Rightarrow> nat \<Rightarrow> real \<Rightarrow> csr" where
  "lil_set W i j x =
     W[i := (if x = 0 then filter (\<lambda>e. fst e \<noteq> j) (W ! i)
             else insort_key fst (j, x) (filter (\<lambda>e. fst e \<noteq> j) (W ! i)))]"

subsection \<open>Neighbour arrays to sparse distances\<close>

text \<open>
  The arrays \<^verbatim>\<open>knn_indices\<close> and \<^verbatim>\<open>knn_dists\<close> have shape n_obs x n_neighbors, as
  every caller passes them; for other shapes the model stops with \<open>Unmodelled\<close>.
\<close>

definition knn_shape :: "nat \<Rightarrow> nat \<Rightarrow> 'a list list \<Rightarrow> 'b list list \<Rightarrow> bool" where
  "knn_shape n_obs k idx dst \<longleftrightarrow>
     length idx = n_obs \<and> length dst = n_obs \<and>
     list_all (\<lambda>r. length r = k) idx \<and> list_all (\<lambda>r. length r = k) dst"

text \<open>
  One pass of the double loop of \<^verbatim>\<open>get_sparse_matrix_from_indices_distances_umap\<close>:
  what slot \<open>i * n_neighbors + j\<close> of \<^verbatim>\<open>rows\<close>, \<^verbatim>\<open>cols\<close>, \<^verbatim>\<open>vals\<close> holds after it.
  A slot the loop skips keeps the zeros the three arrays were created with.
\<close>

definition slot :: "nat \<Rightarrow> int \<Rightarrow> real \<Rightarrow> nat \<times> int \<times> real" where
  "slot i idx d =
     (if idx = - 1 then (0, 0, 0)
      else (i, idx, if idx = int i then 0 else d))"

text \<open>
  \<^verbatim>\<open>get_sparse_matrix_from_indices_distances_umap\<close>: the slots, the bounds check of
  \<^verbatim>\<open>coo_matrix\<close>, \<^verbatim>\<open>eliminate_zeros\<close>, \<^verbatim>\<open>tocsr\<close>.
\<close>

definition get_sparse_matrix_from_indices_distances_umap ::
  "int list list \<Rightarrow> real list list \<Rightarrow> nat \<Rightarrow> nat \<Rightarrow> error + csr" where
  "get_sparse_matrix_from_indices_distances_umap knn_indices knn_dists n_obs n_neighbors =
     (if \<not> knn_shape n_obs n_neighbors knn_indices knn_dists then Inl (Unmodelled ''shape'')
      else
        let slots = concat (map (\<lambda>i. map (\<lambda>j. slot i (knn_indices ! i ! j) (knn_dists ! i ! j))
                                      [0..<n_neighbors]) [0..<n_obs])
        in if \<exists>t \<in> set slots. int n_obs \<le> fst (snd t)
             then Inl (ValueError ''column index exceeds matrix dimensions'')
           else if \<exists>t \<in> set slots. fst (snd t) < 0
             then Inl (ValueError ''negative column index found'')
           else
             let coo = map (\<lambda>t. (fst t, nat (fst (snd t)), snd (snd t))) slots;
                 coo = filter (\<lambda>t. snd (snd t) \<noteq> 0) coo
             in Inr (tocsr n_obs coo))"

text \<open>
  \<^verbatim>\<open>get_sparse_matrix_from_indices_distances_numpy\<close>: row \<open>i\<close> of the csr matrix is row
  \<open>i\<close> of the two arrays, then \<^verbatim>\<open>eliminate_zeros\<close>. The indices come from the exact
  search and are positions of observations.
\<close>

definition get_sparse_matrix_from_indices_distances_numpy ::
  "nat list list \<Rightarrow> real list list \<Rightarrow> nat \<Rightarrow> nat \<Rightarrow> error + csr" where
  "get_sparse_matrix_from_indices_distances_numpy indices distances n_obs n_neighbors =
     (if \<not> knn_shape n_obs n_neighbors indices distances \<or> n_neighbors = 0
      then Inl (Unmodelled ''shape'')
      else Inr (map (\<lambda>i. eliminate_zeros_row (zip (indices ! i) (distances ! i))) [0..<n_obs]))"

subsection \<open>Distances to neighbour arrays\<close>

text \<open>
  One row of \<^verbatim>\<open>get_indices_distances_from_sparse_matrix\<close>, with \<open>m = n_neighbors - 1\<close>:
  the point itself first, then either the \<open>m\<close> nearest of the non-zero entries or, when
  there are at most \<open>m\<close> of them, all of them, assigned to a slice of length \<open>m\<close>.
  For \<open>m = 0\<close> both branches index \<^verbatim>\<open>D[i]\<close> by empty arrays: the assignment to
  \<^verbatim>\<open>indices[i, 1:]\<close> stores an empty array in an empty slice, but scipy answers an
  index by empty arrays with a sparse matrix, which numpy cannot store in
  \<^verbatim>\<open>distances[i, 1:]\<close>, so the row raises.
\<close>

definition sparse_row_neighbors ::
  "nat \<Rightarrow> nat \<Rightarrow> (nat \<times> real) list \<Rightarrow> error + (nat list \<times> real list)" where
  "sparse_row_neighbors m i row =
     (let cols = nonzero_cols row;
          vals = map (getitem_row row) cols
      in if m = 0 then Inl (ValueError ''setting an array element with a sequence.'')
         else if length cols > m
         then let sorted_indices = take m (argsort vals)
              in Inr (i # map ((!) cols) sorted_indices, 0 # map ((!) vals) sorted_indices)
         else (case assign_row m cols of
                 Inl e \<Rightarrow> Inl e
               | Inr cs \<Rightarrow>
                   (case assign_row m vals of
                      Inl e \<Rightarrow> Inl e
                    | Inr vs \<Rightarrow> Inr (i # cs, 0 # vs))))"

definition get_indices_distances_from_sparse_matrix ::
  "csr \<Rightarrow> nat \<Rightarrow> error + (nat list list \<times> real list list)" where
  "get_indices_distances_from_sparse_matrix D n_neighbors =
     (if n_neighbors = 0 then (if D = [] then Inr ([], []) else Inl IndexError)
      else
        (case mapM_err (\<lambda>i. sparse_row_neighbors (n_neighbors - 1) i (D ! i)) [0..<length D] of
           Inl e \<Rightarrow> Inl e
         | Inr rs \<Rightarrow> Inr (map fst rs, map snd rs)))"

text \<open>
  \<^verbatim>\<open>get_indices_distances_from_dense_matrix\<close>: \<^verbatim>\<open>argpartition\<close> needs
  \<open>n_neighbors - 1\<close> to be a column; the result is the \<open>n_neighbors\<close> nearest columns of
  each row in ascending order of distance.
\<close>

definition get_indices_distances_from_dense_matrix ::
  "matrix \<Rightarrow> nat \<Rightarrow> error + (nat list list \<times> real list list)" where
  "get_indices_distances_from_dense_matrix D n_neighbors =
     (if \<exists>row \<in> set D. length row \<le> n_neighbors - 1 then Inl (ValueError ''kth out of bounds'')
      else
        let indices = map (\<lambda>row. take n_neighbors (argsort row)) D
        in Inr (indices, map (\<lambda>(row, ix). map ((!) row) ix) (zip D indices)))"

subsection \<open>The Gaussian kernel\<close>

text \<open>
  The weight of the pair (i, j): \<open>si\<close>, \<open>sj\<close> are \<^verbatim>\<open>sigmas\<close> at i and j, \<open>qi\<close>, \<open>qj\<close> are
  \<^verbatim>\<open>sigmas_sq\<close> there, \<open>d\<close> is the squared distance.
\<close>

definition gauss_weight :: "real \<Rightarrow> real \<Rightarrow> real \<Rightarrow> real \<Rightarrow> real \<Rightarrow> real" where
  "gauss_weight si sj qi qj d = sqrt (2 * si * sj / (qi + qj)) * exp (- d / (qi + qj))"

text \<open>
  The weights of the sparse branch, written by the loop over \<^verbatim>\<open>Dsq.indptr\<close> on the
  stored entries of \<^verbatim>\<open>Dsq\<close>.
\<close>

definition sparse_weights :: "real list \<Rightarrow> real list \<Rightarrow> csr \<Rightarrow> csr" where
  "sparse_weights sigmas sigmas_sq Dsq =
     map (\<lambda>i. map (\<lambda>e. (fst e, gauss_weight (sigmas ! i) (sigmas ! fst e)
                               (sigmas_sq ! i) (sigmas_sq ! fst e) (snd e)))
              (Dsq ! i)) [0..<length Dsq]"

text \<open>
  The weights of the dense branch for \<^verbatim>\<open>knn\<close> false: the full matrix
  \<^verbatim>\<open>np.sqrt(Num/Den) * np.exp(-Dsq/Den)\<close>, every entry that is not above \<open>1e-14\<close> set to
  zero. A quotient 0/0 is not a number, which does not compare above the threshold and
  is set to zero as well.
\<close>

definition dense_weights :: "real list \<Rightarrow> real list \<Rightarrow> matrix \<Rightarrow> matrix" where
  "dense_weights sigmas sigmas_sq Dsq =
     map (\<lambda>i. map (\<lambda>j.
            if sigmas_sq ! i + sigmas_sq ! j = 0 then 0
            else let w = gauss_weight (sigmas ! i) (sigmas ! j)
                           (sigmas_sq ! i) (sigmas_sq ! j) (Dsq ! i ! j)
                 in if w > 1 / 10 ^ 14 then w else 0) [0..<length Dsq]) [0..<length Dsq]"

text \<open>
  The symmetrisation loop of the sparse branch: for each \<open>i\<close> and each \<open>j\<close> of
  \<^verbatim>\<open>indices[i]\<close>, if \<open>i\<close> is not in \<^verbatim>\<open>indices[j]\<close> then \<^verbatim>\<open>W[j, i] = W[i, j]\<close>.
\<close>

definition borrow_step :: "nat list list \<Rightarrow> nat \<Rightarrow> csr \<Rightarrow> nat \<Rightarrow> csr" where
  "borrow_step indices i W j =
     (if i \<notin> set (indices ! j) then lil_set W j i (lil_get W i j) else W)"

definition borrow :: "nat list list \<Rightarrow> csr \<Rightarrow> csr" where
  "borrow indices W =
     foldl (\<lambda>W i. foldl (borrow_step indices i) W (indices ! i)) W [0..<length indices]"

text \<open>
  The sparse branch of \<^verbatim>\<open>_compute_connectivities_diffmap\<close> (\<^verbatim>\<open>knn\<close> is true and
  \<^verbatim>\<open>_distances\<close> is sparse). The median of an empty row and the quotient 0/0 are not
  numbers; a stored column that is no observation is an IndexError of \<^verbatim>\<open>sigmas[row]\<close>.
  \<^verbatim>\<open>power\<close> and \<^verbatim>\<open>tolil\<close> bring the rows into canonical form.
  The weights are written on the stored pattern of \<^verbatim>\<open>Dsq\<close>; nothing is set to zero
  afterwards.
\<close>

definition connectivities_diffmap_sparse :: "csr \<Rightarrow> nat \<Rightarrow> error + csr" where
  "connectivities_diffmap_sparse D n_neighbors =
     (let Dsq = map (\<lambda>row. map (\<lambda>e. (fst e, (snd e)\<^sup>2)) (sum_duplicates row)) D
      in case get_indices_distances_from_sparse_matrix Dsq n_neighbors of
           Inl e \<Rightarrow> Inl e
         | Inr (indices0, distances_sq0) \<Rightarrow>
             let indices = map tl indices0;
                 distances_sq = map tl distances_sq0
             in if \<exists>r \<in> set distances_sq. r = [] then Inl (Unmodelled ''median of an empty row'')
                else
                  let sigmas_sq = map median distances_sq;
                      sigmas = map sqrt sigmas_sq;
                      n = length Dsq
                  in if \<exists>r \<in> set Dsq. \<exists>e \<in> set r. n \<le> fst e then Inl IndexError
                     else if \<exists>i \<in> set [0..<n]. \<exists>e \<in> set (Dsq ! i). sigmas_sq ! i + sigmas_sq ! fst e = 0
                       then Inl (Unmodelled ''0/0'')
                     else
                       let W = sparse_weights sigmas sigmas_sq Dsq;
                           W = map sum_duplicates W
                       in Inr (borrow indices W))"

text \<open>
  The dense branch for \<^verbatim>\<open>knn\<close> false. \<^verbatim>\<open>sigmas_sq\<close> is a quarter of the last of the
  \<open>n_neighbors - 1\<close> squared distances after the point itself; without any the index
  \<open>-1\<close> is an IndexError.
\<close>

definition connectivities_diffmap_dense :: "matrix \<Rightarrow> nat \<Rightarrow> error + matrix" where
  "connectivities_diffmap_dense D n_neighbors =
     (let Dsq = map (map (\<lambda>x. x\<^sup>2)) D
      in case get_indices_distances_from_dense_matrix Dsq n_neighbors of
           Inl e \<Rightarrow> Inl e
         | Inr (indices0, distances_sq0) \<Rightarrow>
             let distances_sq = map tl distances_sq0
             in if \<exists>r \<in> set distances_sq. r = [] then Inl IndexError
                else
                  let sigmas_sq = map (\<lambda>r. last r / 4) distances_sq;
                      sigmas = map sqrt sigmas_sq
                  in Inr (dense_weights sigmas sigmas_sq Dsq))"

text \<open>
  A sparse distance matrix as the exact search leaves it for \<open>k\<close> neighbours, \<open>k\<close> at
  least 2: every row in canonical form with exactly \<open>k - 1\<close> stored entries, none of
  them zero, at columns that are observations; and a distance that is stored in both
  directions is the same in both. A predicate for the hypotheses of lemmas, not code.
\<close>

definition complete_knn_graph :: "nat \<Rightarrow> csr \<Rightarrow> bool" where
  "complete_knn_graph k D \<longleftrightarrow>
     2 \<le> k \<and>
     list_all (\<lambda>row. sorted (map fst row) \<and> distinct (map fst row) \<and> length row = k - 1 \<and>
                     list_all (\<lambda>e. snd e \<noteq> 0 \<and> fst e < length D) row) D \<and>
     list_all (\<lambda>i. list_all (\<lambda>e. list_all (\<lambda>e'. fst e' \<noteq> i \<or> snd e' = snd e) (D ! fst e)) (D ! i))
       [0..<length D]"

text \<open>
  \<^verbatim>\<open>_compute_connectivities_diffmap\<close>. With \<^verbatim>\<open>knn\<close> true the first statement calls
  \<^verbatim>\<open>self._distances.power(2)\<close>, which only a sparse matrix has: the dense branch that
  builds a neighbour mask cannot be reached and is not modelled.
\<close>

definition compute_connectivities_diffmap :: "neighbors_obj \<Rightarrow> error + neighbors_obj" where
  "compute_connectivities_diffmap s =
     (case s_n_neighbors s of
        None \<Rightarrow> Inl (AttributeError ''n_neighbors'')
      | Some k \<Rightarrow>
          if s_knn s = Some True then
            (case s_distances s of
               Some (Sparse D) \<Rightarrow>
                 (case connectivities_diffmap_sparse D k of
                    Inl e \<Rightarrow> Inl e
                  | Inr W \<Rightarrow> Inr (s\<lparr> s_connectivities := Some (Sparse W) \<rparr>))
             | _ \<Rightarrow> Inl (AttributeError ''power''))
          else
            (case s_distances s of
               Some (Dense D) \<Rightarrow>
                 (case connectivities_diffmap_dense D k of
                    Inl e \<Rightarrow> Inl e
                  | Inr W \<Rightarrow> Inr (s\<lparr> s_connectivities := Some (Dense W) \<rparr>))
             | Some (Sparse D) \<Rightarrow> Inl (Unmodelled ''np.power of a sparse matrix'')
             | None \<Rightarrow> Inl TypeError))"

subsection \<open>compute_neighbors and neighbors\<close>








subsection \<open>Diffusion pseudotime\<close>

text \<open>
  \<^verbatim>\<open>OnFlySymMatrix\<close>: the cache of rows and the optional restriction to a subset of
  indices. The row function is passed to the operations. A view made by \<^verbatim>\<open>restrict\<close>
  shares the cache of its parent.
\<close>

record onfly =
  of_rows :: "nat \<rightharpoonup> fval list"
  of_restrict_array :: "nat list option"

definition onfly_restrict :: "onfly \<Rightarrow> nat list \<Rightarrow> onfly" where
  "onfly_restrict m index_array = \<lparr> of_rows = of_rows m, of_restrict_array = Some index_array \<rparr>"

text \<open>\<^verbatim>\<open>__getitem__\<close> for a single index: the row and the matrix with its cache updated.\<close>

definition onfly_getitem ::
  "(nat \<Rightarrow> error + fval list) \<Rightarrow> onfly \<Rightarrow> nat \<Rightarrow> error + (fval list \<times> onfly)" where
  "onfly_getitem get_row m index =
     (case (case of_restrict_array m of
              None \<Rightarrow> Inr index
            | Some ra \<Rightarrow> if index < length ra then Inr (ra ! index) else Inl IndexError) of
        Inl e \<Rightarrow> Inl e
      | Inr glob_index \<Rightarrow>
          (case (case of_rows m glob_index of
                   Some row \<Rightarrow> Inr (row, m)
                 | None \<Rightarrow>
                     (case get_row glob_index of
                        Inl e \<Rightarrow> Inl e
                      | Inr row \<Rightarrow> Inr (row, m\<lparr> of_rows := (of_rows m)(glob_index \<mapsto> row) \<rparr>))) of
             Inl e \<Rightarrow> Inl e
           | Inr (row, m') \<Rightarrow>
               (case of_restrict_array m of
                  None \<Rightarrow> Inr (row, m')
                | Some ra \<Rightarrow>
                    if list_all (\<lambda>g. g < length row) ra then Inr (map ((!) row) ra, m')
                    else Inl IndexError)))"

text \<open>
  \<^verbatim>\<open>_get_dpt_row\<close>. The mask (\<open>same_label\<close>) is computed first; then, for every observation \<open>j\<close>, the
  two sums over the eigenvalues below and from 0.9994 on; the masked entries are set to
  infinity; the square root ends it. Without any eigenvalue both sums are the integer 0:
  the assignment under the mask is a TypeError, and without a mask the result is a
  scalar, which the model does not follow.
\<close>

definition dpt_row_sq :: "real list \<Rightarrow> real list list \<Rightarrow> nat \<Rightarrow> nat \<Rightarrow> real" where
  "dpt_row_sq ev B i j =
     (\<Sum>l\<leftarrow>filter (\<lambda>l. ev ! l < 9994 / 10000) [0..<length ev].
        (ev ! l / (1 - ev ! l) * (B ! i ! l - B ! j ! l))\<^sup>2)
     + (\<Sum>l\<leftarrow>filter (\<lambda>l. ev ! l \<ge> 9994 / 10000) [0..<length ev].
        (B ! i ! l - B ! j ! l)\<^sup>2)"

definition get_dpt_row :: "neighbors_obj \<Rightarrow> nat \<Rightarrow> error + fval list" where
  "get_dpt_row s i =
     (case s_number_connected_components s of
        None \<Rightarrow> Inl TypeError
      | Some ncc \<Rightarrow>
          (case (if ncc > 1
                 then (case s_connected_components s of
                         None \<Rightarrow> Inl (AttributeError ''_connected_components'')
                       | Some (c, labels) \<Rightarrow>
                           if i < length labels
                           then Inr (Some (map (\<lambda>l. l = labels ! i) labels))
                           else Inl IndexError)
                 else Inr None) of
             Inl e \<Rightarrow> Inl e
           | Inr same_label \<Rightarrow>
               (case s_eigen_values s of
                  None \<Rightarrow> Inl (AttributeError ''size'')
                | Some ev \<Rightarrow>
                    if ev = [] then
                      (case same_label of None \<Rightarrow> Inl (Unmodelled ''scalar row'') | Some mk \<Rightarrow> Inl TypeError)
                    else
                      (case s_eigen_basis s of
                         None \<Rightarrow> Inl TypeError
                       | Some B \<Rightarrow>
                           if length B \<le> i \<or> (\<exists>r \<in> set B. length r < length ev) then Inl IndexError
                           else
                             let row = map (dpt_row_sq ev B i) [0..<length B]
                             in (case same_label of
                                   None \<Rightarrow> Inr (map (\<lambda>x. Fin (sqrt x)) row)
                                 | Some mk \<Rightarrow>
                                     if length mk \<noteq> length row then Inl IndexError
                                     else Inr (map (\<lambda>(x, keep). if keep then Fin (sqrt x) else PInf)
                                                 (zip row mk)))))))"

text \<open>The property \<^verbatim>\<open>distances_dpt\<close>: a new matrix with an empty cache, on every read.\<close>

definition distances_dpt :: "neighbors_obj \<Rightarrow> onfly" where
  "distances_dpt s = \<lparr> of_rows = Map.empty, of_restrict_array = None \<rparr>"

text \<open>
  Division of a float by a float that is a finite number, as numpy does it: a division
  by zero gives an infinity or, for 0/0, not a number.
\<close>

fun fdiv :: "fval \<Rightarrow> real \<Rightarrow> fval" where
  "fdiv (Fin a) m = (if m \<noteq> 0 then Fin (a / m) else if a > 0 then PInf else if a < 0 then NInf else NaN)"
| "fdiv PInf m = (if m \<ge> 0 then PInf else NInf)"
| "fdiv NInf m = (if m \<ge> 0 then NInf else PInf)"
| "fdiv NaN m = NaN"

text \<open>\<^verbatim>\<open>np.max\<close> of a non-empty vector.\<close>

definition amax :: "real list \<Rightarrow> real" where
  "amax xs = fold max (tl xs) (hd xs)"

definition finite_entries :: "fval list \<Rightarrow> real list" where
  "finite_entries row = concat (map (\<lambda>x. case x of Fin a \<Rightarrow> [a] | _ \<Rightarrow> []) row)"

text \<open>
  \<^verbatim>\<open>_set_pseudotime\<close>: the row of the root, divided by the maximum of its entries below
  infinity. A row of \<^verbatim>\<open>_get_dpt_row\<close> holds finite numbers and plus infinity only; for
  other rows the model stops. \<^verbatim>\<open>np.max\<close> of no entry raises.
\<close>

definition set_pseudotime :: "neighbors_obj \<Rightarrow> error + neighbors_obj" where
  "set_pseudotime s =
     (case s_iroot s of
        None \<Rightarrow> Inl TypeError
      | Some r \<Rightarrow>
          (case onfly_getitem (get_dpt_row s) (distances_dpt s) r of
             Inl e \<Rightarrow> Inl e
           | Inr (row, m) \<Rightarrow>
               if \<exists>x \<in> set row. x = NInf \<or> x = NaN then Inl (Unmodelled ''row'')
               else if finite_entries row = []
                 then Inl (ValueError ''zero-size array to reduction operation maximum'')
               else Inr (s\<lparr> s_pseudotime := Some (map (\<lambda>x. fdiv x (amax (finite_entries row))) row) \<rparr>)))"

text \<open>
  A computed spectral decomposition: at least one eigenvalue, and a basis with one row
  for each observation and one column for each eigenvalue. A computed partition into
  connected components, as \<^verbatim>\<open>compute_neighbors\<close> stores it: one label for each
  observation, and the number of distinct labels as the number of components.
  Predicates for the hypotheses of theorems, not code.
\<close>

definition spectral_wf :: "neighbors_obj \<Rightarrow> bool" where
  "spectral_wf s \<longleftrightarrow>
     (case (s_eigen_values s, s_eigen_basis s) of
        (Some ev, Some B) \<Rightarrow>
          ev \<noteq> [] \<and> length B = adata_n_obs s \<and> list_all (\<lambda>r. length r = length ev) B
      | _ \<Rightarrow> False)"

definition components_wf :: "neighbors_obj \<Rightarrow> bool" where
  "components_wf s \<longleftrightarrow>
     (case (s_number_connected_components s, s_connected_components s) of
        (Some ncc, Some (c, labels)) \<Rightarrow>
          ncc = c \<and> length labels = adata_n_obs s \<and> c = length (remdups labels)
      | _ \<Rightarrow> False)"

subsection \<open>Root selection\<close>

text \<open>\<^verbatim>\<open>diff @ diff\<close> for \<^verbatim>\<open>diff = X[i, :] - xroot\<close>: the squared Euclidean distance.\<close>

definition sq_dist :: "real list \<Rightarrow> real list \<Rightarrow> real" where
  "sq_dist x xroot = (\<Sum>d\<leftarrow>map2 (-) x xroot. d * d)"

text \<open>
  The loop of \<^verbatim>\<open>_set_iroot_via_xroot\<close> over the rows that are left, with the position
  \<open>i\<close> of the next row and the current \<^verbatim>\<open>dsqroot\<close> and \<^verbatim>\<open>iroot\<close>. The \<^verbatim>\<open>break\<close> ends
  the loop at once.
\<close>

fun iroot_scan :: "real list list \<Rightarrow> real list \<Rightarrow> nat \<Rightarrow> real \<Rightarrow> nat \<Rightarrow> nat" where
  "iroot_scan [] xroot i dsqroot iroot = iroot"
| "iroot_scan (x # X) xroot i dsqroot iroot =
     (let dsq = sq_dist x xroot
      in if dsq < dsqroot
         then (if sqrt dsq < 1 / 10 ^ 10 then i else iroot_scan X xroot (Suc i) dsq i)
         else iroot_scan X xroot (Suc i) dsqroot iroot)"

text \<open>
  \<^verbatim>\<open>_set_iroot_via_xroot\<close>: the check of the dimension, then the scan from
  \<^verbatim>\<open>dsqroot = 1e10\<close> and \<^verbatim>\<open>iroot = 0\<close> over the rows of \<^verbatim>\<open>X\<close>, one for each
  observation.
\<close>

definition set_iroot_via_xroot :: "neighbors_obj \<Rightarrow> real list \<Rightarrow> error + neighbors_obj" where
  "set_iroot_via_xroot s xroot =
     (if adata_n_vars s \<noteq> length xroot
      then Inl (ValueError ''The root vector you provided does not have the correct dimension.'')
      else Inr (s\<lparr> s_iroot := Some (iroot_scan (adata_X s) xroot 0 (10 ^ 10) 0) \<rparr>))"

subsection \<open>The forest of random projection trees\<close>

text \<open>
  A tree with its four arrays, each the list of its rows, and the flat form of one
  array over a forest: the start of each tree and the rows of all trees.
\<close>

record 'a flat_tree =
  t_hyperplanes :: "'a list"
  t_offsets :: "'a list"
  t_children :: "'a list"
  t_indices :: "'a list"

record 'a flat_prop =
  fp_start :: "nat list"
  fp_data :: "'a list"

type_synonym 'a forest_dict = "string \<rightharpoonup> 'a flat_prop"

text \<open>\<^verbatim>\<open>FlatTree._fields\<close>, \<^verbatim>\<open>getattr(tree, prop)\<close> and the constructor \<^verbatim>\<open>FlatTree(*tree)\<close>.\<close>

definition FlatTree_fields :: "string list" where
  "FlatTree_fields = [''hyperplanes'', ''offsets'', ''children'', ''indices'']"

definition getattr_tree :: "'a flat_tree \<Rightarrow> string \<Rightarrow> 'a list" where
  "getattr_tree t prop =
     (if prop = ''hyperplanes'' then t_hyperplanes t
      else if prop = ''offsets'' then t_offsets t
      else if prop = ''children'' then t_children t
      else t_indices t)"

definition FlatTree :: "'a list list \<Rightarrow> error + 'a flat_tree" where
  "FlatTree args =
     (case args of
        [hp, os, ch, ix] \<Rightarrow> Inr \<lparr> t_hyperplanes = hp, t_offsets = os, t_children = ch, t_indices = ix \<rparr>
      | _ \<Rightarrow> Inl TypeError)"

text \<open>The starts that the inner loop of \<^verbatim>\<open>_make_forest_dict\<close> writes, from \<open>start\<close> on.\<close>

fun starts_from :: "nat \<Rightarrow> nat list \<Rightarrow> nat list" where
  "starts_from start [] = []"
| "starts_from start (sz # sizes) = start # starts_from (start + sz) sizes"

text \<open>
  \<^verbatim>\<open>_make_forest_dict\<close>: for each of the four properties the starts (one for each
  tree, no final one) and the concatenated rows. \<^verbatim>\<open>forest[0]\<close> raises for an empty forest.
\<close>

definition make_forest_dict :: "'a flat_tree list \<Rightarrow> error + 'a forest_dict" where
  "make_forest_dict forest =
     (if forest = [] then Inl IndexError
      else Inr (map_of (map (\<lambda>prop.
                  (prop, \<lparr> fp_start = starts_from 0 (map (\<lambda>t. length (getattr_tree t prop)) forest),
                           fp_data = concat (map (\<lambda>t. getattr_tree t prop) forest) \<rparr>))
                [''hyperplanes'', ''offsets'', ''children'', ''indices''])))"

text \<open>\<^verbatim>\<open>d[prop]\<close> and \<^verbatim>\<open>xs[i]\<close> for a Python integer \<open>i\<close>.\<close>

definition lookup_prop :: "'a forest_dict \<Rightarrow> string \<Rightarrow> error + 'a flat_prop" where
  "lookup_prop d prop = (case d prop of None \<Rightarrow> Inl (KeyError prop) | Some e \<Rightarrow> Inr e)"

definition py_index :: "'a list \<Rightarrow> int \<Rightarrow> error + 'a" where
  "py_index xs i =
     (let n = int (length xs); j = (if i < 0 then n + i else i)
      in if 0 \<le> j \<and> j < n then Inr (xs ! nat j) else Inl IndexError)"

text \<open>
  The inner loop \<^verbatim>\<open>for prop in props\<close> of \<^verbatim>\<open>_rp_forest_generate\<close> for tree \<open>i\<close>: the
  slices \<^verbatim>\<open>data[start:end]\<close>, or \<^verbatim>\<open>data[start:]\<close> for the last tree.
\<close>

definition tree_slices :: "'a forest_dict \<Rightarrow> string list \<Rightarrow> int \<Rightarrow> bool \<Rightarrow> error + 'a list list" where
  "tree_slices d props i is_last =
     mapM_err (\<lambda>prop.
        case lookup_prop d prop of
          Inl e \<Rightarrow> Inl e
        | Inr p \<Rightarrow>
            (case py_index (fp_start p) i of
               Inl e \<Rightarrow> Inl e
             | Inr start \<Rightarrow>
                 if is_last then Inr (drop start (fp_data p))
                 else (case py_index (fp_start p) (i + 1) of
                         Inl e \<Rightarrow> Inl e
                       | Inr stop \<Rightarrow> Inr (take (stop - start) (drop start (fp_data p)))))) props"

text \<open>
  The generator, as the trees it yields and the error that ends it, if any: the loop
  over \<^verbatim>\<open>range(num_trees)\<close>, then the last tree.
\<close>

fun generate_trees ::
  "'a forest_dict \<Rightarrow> string list \<Rightarrow> int list \<Rightarrow> int \<Rightarrow> 'a flat_tree list \<times> error option" where
  "generate_trees d props [] num_trees =
     (case tree_slices d props num_trees True of
        Inl e \<Rightarrow> ([], Some e)
      | Inr tree \<Rightarrow> (case FlatTree tree of Inl e \<Rightarrow> ([], Some e) | Inr t \<Rightarrow> ([t], None)))"
| "generate_trees d props (i # rest) num_trees =
     (case tree_slices d props i False of
        Inl e \<Rightarrow> ([], Some e)
      | Inr tree \<Rightarrow>
          (case FlatTree tree of
             Inl e \<Rightarrow> ([], Some e)
           | Inr t \<Rightarrow> (case generate_trees d props rest num_trees of (ts, e) \<Rightarrow> (t # ts, e))))"

text \<open>
  \<^verbatim>\<open>_rp_forest_generate\<close>. Its first statement is \<^verbatim>\<open>props = FlatTree._fields[0]\<close>:
  \<^verbatim>\<open>props\<close> is the string 'hyperplanes', and the loops \<^verbatim>\<open>for prop in props\<close> run over
  its characters.
\<close>

definition rp_forest_generate :: "'a forest_dict \<Rightarrow> 'a flat_tree list \<times> error option" where
  "rp_forest_generate d =
     (let props = FlatTree_fields ! 0
      in case lookup_prop d props of
           Inl e \<Rightarrow> ([], Some e)
         | Inr p \<Rightarrow>
             let num_trees = int (length (fp_start p)) - 1
             in generate_trees d (map (\<lambda>c. [c]) props) (map int [0..<nat num_trees]) num_trees)"

section \<open>Properties\<close>

subsection \<open>State order\<close>

text \<open>
  C7. On an object on which \<^verbatim>\<open>compute_transitions\<close> has not run, \<^verbatim>\<open>compute_eigen\<close>
  fails with the state error "Run .compute_transitions first.", but reading
  \<^verbatim>\<open>transitions\<close> fails with an AttributeError for the missing attribute \<^verbatim>\<open>Z\<close>:
  the property has no guard of its own.
\<close>

theorem transitions_before_compute_transitions:
  "transitions (init_neighbors n d x) = Inl (AttributeError ''Z'') \<and>
   transitions (init_neighbors n d x) \<noteq> Inl (ValueError ''Run .compute_transitions first.'') \<and>
   compute_eigen eigh eigsh k sort_order (init_neighbors n d x)
     = Inl (ValueError ''Run .compute_transitions first.'')"
  by (simp add: transitions_def compute_eigen_def init_neighbors_def)

subsection \<open>Neighbour arrays to sparse distances\<close>

lemma fst_set_sum_duplicates: "fst ` set (sum_duplicates row) = fst ` set row"
  by (simp add: sum_duplicates_def image_image)

lemma slot_nonzero:
  "snd (snd (slot i idx d)) \<noteq> 0 \<longleftrightarrow> idx \<noteq> - 1 \<and> idx \<noteq> int i \<and> d \<noteq> 0"
  by (simp add: slot_def)

lemma slot_nonzero_eq:
  "snd (snd (slot i idx d)) \<noteq> 0 \<Longrightarrow> slot i idx d = (i, idx, d)"
  by (simp add: slot_def split: if_splits)

text \<open>
  C6, as the code has it. Neither builder stores the self-distance. Row \<open>i\<close> of the matrix
  of the umap builder stores exactly the columns \<open>c \<noteq> i\<close> that some slot of row \<open>i\<close> names
  with a non-zero distance, so the self slot, the slots indexed -1 and the slots of
  distance zero are all dropped and no entry (i, i) exists. Row \<open>i\<close> of the matrix of the
  numpy builder stores exactly the slots of row \<open>i\<close> whose distance is not zero.
\<close>

theorem sparse_builders_drop_self_distance:
  "(get_sparse_matrix_from_indices_distances_umap knn_indices knn_dists n_obs n_neighbors = Inr D \<longrightarrow>
      i < n_obs \<longrightarrow>
      fst ` set (D ! i) =
        {c. c \<noteq> i \<and> (\<exists>j < n_neighbors. knn_indices ! i ! j = int c \<and> knn_dists ! i ! j \<noteq> 0)} \<and>
      i \<notin> fst ` set (D ! i)) \<and>
   (get_sparse_matrix_from_indices_distances_numpy indices distances n_obs n_neighbors = Inr D' \<longrightarrow>
      i < n_obs \<longrightarrow>
      set (D' ! i) = {e \<in> set (zip (indices ! i) (distances ! i)). snd e \<noteq> 0} \<and>
      (i, 0) \<notin> set (D' ! i))"
proof (intro conjI impI)
  assume res: "get_sparse_matrix_from_indices_distances_umap knn_indices knn_dists n_obs n_neighbors = Inr D"
    and i: "i < n_obs"
  define slots where "slots = concat (map (\<lambda>i. map (\<lambda>j. slot i (knn_indices ! i ! j) (knn_dists ! i ! j))
                                      [0..<n_neighbors]) [0..<n_obs])"
  define coo where "coo = filter (\<lambda>t. snd (snd t) \<noteq> 0) (map (\<lambda>t. (fst t, nat (fst (snd t)), snd (snd t))) slots)"
  have "get_sparse_matrix_from_indices_distances_umap knn_indices knn_dists n_obs n_neighbors =
      (if \<not> knn_shape n_obs n_neighbors knn_indices knn_dists then Inl (Unmodelled ''shape'')
       else if \<exists>t \<in> set slots. int n_obs \<le> fst (snd t)
         then Inl (ValueError ''column index exceeds matrix dimensions'')
       else if \<exists>t \<in> set slots. fst (snd t) < 0
         then Inl (ValueError ''negative column index found'')
       else Inr (tocsr n_obs coo))"
    by (simp add: get_sparse_matrix_from_indices_distances_umap_def Let_def slots_def coo_def)
  with res have nonneg: "\<forall>t \<in> set slots. 0 \<le> fst (snd t)"
    and D: "D = tocsr n_obs coo"
    by (auto simp: not_less split: if_splits)
  have Di: "fst ` set (D ! i) = fst ` set (map snd (filter (\<lambda>t. fst t = i) coo))"
    using i by (simp add: D tocsr_def fst_set_sum_duplicates)
  have mem: "(r, c, v) \<in> set coo \<longleftrightarrow>
      r < n_obs \<and> (\<exists>j < n_neighbors. knn_indices ! r ! j = int c \<and> knn_indices ! r ! j \<noteq> int r \<and>
         v = knn_dists ! r ! j \<and> v \<noteq> 0)" for r c v
  proof
    assume "(r, c, v) \<in> set coo"
    then obtain t where t: "t \<in> set slots" and eq: "r = fst t" "c = nat (fst (snd t))" "v = snd (snd t)"
      and nz: "snd (snd t) \<noteq> 0"
      by (auto simp: coo_def)
    from t obtain i' j where ij: "i' < n_obs" "j < n_neighbors"
      and tt: "t = slot i' (knn_indices ! i' ! j) (knn_dists ! i' ! j)"
      by (auto simp: slots_def)
    from nz tt have full: "t = (i', knn_indices ! i' ! j, knn_dists ! i' ! j)"
      and ne: "knn_indices ! i' ! j \<noteq> int i'" "knn_dists ! i' ! j \<noteq> 0"
      using slot_nonzero slot_nonzero_eq by auto
    from nonneg t full have "0 \<le> knn_indices ! i' ! j" by auto
    with full eq ij ne show "r < n_obs \<and> (\<exists>j < n_neighbors. knn_indices ! r ! j = int c \<and>
         knn_indices ! r ! j \<noteq> int r \<and> v = knn_dists ! r ! j \<and> v \<noteq> 0)"
      by auto
  next
    assume "r < n_obs \<and> (\<exists>j < n_neighbors. knn_indices ! r ! j = int c \<and> knn_indices ! r ! j \<noteq> int r \<and>
         v = knn_dists ! r ! j \<and> v \<noteq> 0)"
    then obtain j where r: "r < n_obs" and j: "j < n_neighbors"
      and c: "knn_indices ! r ! j = int c" and ne: "knn_indices ! r ! j \<noteq> int r"
      and v: "v = knn_dists ! r ! j" "v \<noteq> 0"
      by auto
    have "slot r (knn_indices ! r ! j) (knn_dists ! r ! j) = (r, int c, v)"
      using c ne v by (simp add: slot_def)
    moreover have "slot r (knn_indices ! r ! j) (knn_dists ! r ! j) \<in> set slots"
      using r j by (force simp: slots_def)
    ultimately have "(r, int c, v) \<in> set slots" by simp
    then have "(\<lambda>t. (fst t, nat (fst (snd t)), snd (snd t))) (r, int c, v)
        \<in> set (map (\<lambda>t. (fst t, nat (fst (snd t)), snd (snd t))) slots)"
      by (simp only: set_map) (rule imageI)
    with v show "(r, c, v) \<in> set coo"
      by (simp add: coo_def)
  qed
  have cols: "fst ` set (D ! i) = {c. \<exists>v. (i, c, v) \<in> set coo}"
    unfolding Di by force
  show "fst ` set (D ! i) =
        {c. c \<noteq> i \<and> (\<exists>j < n_neighbors. knn_indices ! i ! j = int c \<and> knn_dists ! i ! j \<noteq> 0)}"
    unfolding cols using i by (auto simp: mem)
  then show "i \<notin> fst ` set (D ! i)" by simp
next
  assume res: "get_sparse_matrix_from_indices_distances_numpy indices distances n_obs n_neighbors = Inr D'"
    and i: "i < n_obs"
  from res have "D' = map (\<lambda>i. eliminate_zeros_row (zip (indices ! i) (distances ! i))) [0..<n_obs]"
    by (auto simp: get_sparse_matrix_from_indices_distances_numpy_def split: if_splits)
  with i have "D' ! i = eliminate_zeros_row (zip (indices ! i) (distances ! i))"
    by simp
  then show "set (D' ! i) = {e \<in> set (zip (indices ! i) (distances ! i)). snd e \<noteq> 0}"
    by (simp add: eliminate_zeros_row_def)
  then show "(i, 0) \<notin> set (D' ! i)" by simp
qed

text \<open>The theorem at two observations that are each other's neighbour.\<close>

theorem sparse_builders_drop_self_distance_witness:
  "fst ` set ([[(1, 1)], [(0, 1)]] ! 0) = {c. c \<noteq> (0::nat) \<and> (\<exists>j < 2. [[0, 1], [1, 0 :: int]] ! 0 ! j = int c \<and> [[0, 1], [0, 1 :: real]] ! 0 ! j \<noteq> 0)} \<and>
   (0::nat, 0::real) \<notin> set ([[(1, 1)], [(0, 1)]] ! 0)"
proof -
  have a: "get_sparse_matrix_from_indices_distances_umap [[0, 1], [1, 0]] [[0, 1], [0, 1]] 2 2 = Inr [[(1, 1)], [(0, 1)]]"
    by code_simp
  have b: "get_sparse_matrix_from_indices_distances_numpy [[0, 1], [1, 0]] [[0, 1], [0, 1]] 2 2 = Inr [[(1, 1)], [(0, 1)]]"
    by code_simp
  show ?thesis
    using sparse_builders_drop_self_distance [of "[[0, 1], [1, 0]]" "[[0, 1], [0, 1]]" 2 2 "[[(1, 1)], [(0, 1)]]" 0
        "[[0, 1], [1, 0]]" "[[0, 1], [0, 1]]" "[[(1, 1)], [(0, 1)]]"] a b
    by simp
qed

text \<open>
  Against C6 as stated: for two observations with themselves as nearest neighbour at
  distance 0, both builders return a matrix with no stored entry on the diagonal.
\<close>

theorem explicit_self_zero_counterexample:
  "get_sparse_matrix_from_indices_distances_umap [[0, 1], [1, 0]] [[0, 1], [0, 1]] 2 2 = Inr [[(1, 1)], [(0, 1)]] \<and>
   get_sparse_matrix_from_indices_distances_numpy [[0, 1], [1, 0]] [[0, 1], [0, 1]] 2 2 = Inr [[(1, 1)], [(0, 1)]] \<and>
   (0::nat, 0::real) \<notin> set ([[(1, 1)], [(0, 1)]] ! 0) \<and> (1::nat, 0::real) \<notin> set ([[(1, 1)], [(0, 1)]] ! 1)"
  by code_simp

subsection \<open>Distances to neighbour arrays\<close>

lemma getitem_row_distinct:
  "distinct (map fst row) \<Longrightarrow> (c, v) \<in> set row \<Longrightarrow> getitem_row row c = v"
proof (induction row)
  case Nil
  then show ?case by simp
next
  case (Cons e row)
  show ?case
  proof (cases "e = (c, v)")
    case True
    with Cons.prems have "c \<notin> fst ` set row" by auto
    then have "filter (\<lambda>e. fst e = c) row = []"
      by (auto simp: filter_empty_conv)
    with True show ?thesis by (simp add: getitem_row_def)
  next
    case False
    with Cons.prems have in_row: "(c, v) \<in> set row" by auto
    then have "c \<in> fst ` set row" by force
    with Cons.prems have "fst e \<noteq> c" by auto
    moreover have "getitem_row row c = v"
      using Cons.IH Cons.prems in_row by simp
    ultimately show ?thesis by (simp add: getitem_row_def)
  qed
qed

lemma vals_of_distinct_row:
  assumes "distinct (map fst row)"
  shows "map (getitem_row row) (nonzero_cols row) = map snd (eliminate_zeros_row row)"
proof -
  have "\<And>e. e \<in> set (filter (\<lambda>e. snd e \<noteq> 0) row) \<Longrightarrow> getitem_row row (fst e) = snd e"
    using getitem_row_distinct [OF assms] by auto
  then show ?thesis
    by (simp add: nonzero_cols_def eliminate_zeros_row_def)
qed



lemma mapM_err_Inr:
  "(\<And>x. x \<in> set xs \<Longrightarrow> f x = Inr (g x)) \<Longrightarrow> mapM_err f xs = Inr (map g xs)"
  by (induction xs) simp_all


text \<open>
  With a single column to fill, \<open>k = 1\<close>, the extraction raises on every matrix that has
  a row: the slice after the point itself is empty and the distances cannot be stored.
\<close>

lemma sparse_extraction_single_column_raises:
  assumes "D \<noteq> []"
  shows "get_indices_distances_from_sparse_matrix D 1
     = Inl (ValueError ''setting an array element with a sequence.'')"
proof -
  from assms have "[0..<length D] = 0 # [1..<length D]"
    by (simp add: upt_conv_Cons)
  then show ?thesis
    by (simp add: get_indices_distances_from_sparse_matrix_def sparse_row_neighbors_def Let_def)
qed




subsection \<open>The Gaussian kernel\<close>

lemma gauss_weight_commute: "gauss_weight si sj qi qj d = gauss_weight sj si qj qi d"
  by (simp add: gauss_weight_def mult.commute add.commute mult.left_commute)

lemma dense_weights_symmetric:
  assumes "Dsq ! i ! j = Dsq ! j ! i" and "i < length Dsq" and "j < length Dsq"
  shows "dense_weights sigmas sigmas_sq Dsq ! i ! j = dense_weights sigmas sigmas_sq Dsq ! j ! i"
  using assms
  by (simp add: dense_weights_def add.commute [of "sigmas_sq ! i"]
      gauss_weight_commute [of "sigmas ! i" "sigmas ! j"])

text \<open>The dense branch: a symmetric distance matrix gives a symmetric weight matrix.\<close>

lemma connectivities_diffmap_dense_symmetric:
  assumes run: "connectivities_diffmap_dense D k = Inr W"
    and square: "list_all (\<lambda>r. length r = length D) D"
    and sym: "\<forall>i < length D. \<forall>j < length D. D ! i ! j = D ! j ! i"
    and i: "i < length D" and j: "j < length D"
  shows "W ! i ! j = W ! j ! i"
proof -
  define Dsq where "Dsq = map (map (\<lambda>x. x\<^sup>2)) D"
  from run obtain sigmas sigmas_sq where W: "W = dense_weights sigmas sigmas_sq Dsq"
    by (auto simp: connectivities_diffmap_dense_def Let_def Dsq_def
        split: sum.splits prod.splits if_splits)
  have len: "length (D ! i) = length D" "length (D ! j) = length D"
    using square i j by (simp_all add: list_all_length)
  have "Dsq ! i ! j = (D ! i ! j)\<^sup>2" "Dsq ! j ! i = (D ! j ! i)\<^sup>2"
    using i j len by (simp_all add: Dsq_def)
  with sym i j have "Dsq ! i ! j = Dsq ! j ! i"
    by simp
  then show ?thesis
    unfolding W using i j by (intro dense_weights_symmetric) (simp_all add: Dsq_def)
qed

lemma getitem_row_mset:
  "getitem_row row c = sum_mset (image_mset snd (filter_mset (\<lambda>e. fst e = c) (mset row)))"
  by (simp add: getitem_row_def sum_mset_sum_list [symmetric] del: sum_mset_sum_list)

lemma getitem_row_filter_other:
  "getitem_row (filter (\<lambda>e. fst e \<noteq> b) row) c = (if c = b then 0 else getitem_row row c)"
proof -
  have "filter (\<lambda>e. fst e = c) (filter (\<lambda>e. fst e \<noteq> b) row)
      = (if c = b then [] else filter (\<lambda>e. fst e = c) row)"
    by (induction row) auto
  then show ?thesis by (simp add: getitem_row_def)
qed

lemma getitem_row_insort:
  "getitem_row (insort_key fst (b, x) row) c = (if c = b then x else 0) + getitem_row row c"
  by (simp add: getitem_row_mset)

lemma lil_get_set:
  assumes "a < length W"
  shows "lil_get (lil_set W a b x) a' b' = (if a' = a \<and> b' = b then x else lil_get W a' b')"
  using assms
  by (auto simp: lil_get_def lil_set_def nth_list_update getitem_row_filter_other getitem_row_insort)

lemma length_lil_set [simp]: "length (lil_set W a b x) = length W"
  by (simp add: lil_set_def)

lemma foldl_nested_pairs:
  "foldl (\<lambda>W i. foldl (f i) W (g i)) W xs
     = foldl (\<lambda>W p. f (fst p) W (snd p)) W (concat (map (\<lambda>i. map (Pair i) (g i)) xs))"
  by (induction xs arbitrary: W) (simp_all add: foldl_map)

text \<open>
  After the loop over a list of pairs (i, j) with \<open>j\<close> in \<^verbatim>\<open>indices[i]\<close>: the entry
  (a, b) was overwritten, by the first value of (b, a), exactly when (b, a) is in the
  list and \<open>b\<close> is not in \<^verbatim>\<open>indices[a]\<close>.
\<close>

lemma borrow_pairs_get:
  assumes "\<forall>p \<in> set ps. snd p \<in> set (indices ! fst p) \<and> snd p < length W0"
  shows "length (foldl (\<lambda>W p. borrow_step indices (fst p) W (snd p)) W0 ps) = length W0 \<and>
         (\<forall>a b. lil_get (foldl (\<lambda>W p. borrow_step indices (fst p) W (snd p)) W0 ps) a b
            = (if (b, a) \<in> set ps \<and> b \<notin> set (indices ! a) then lil_get W0 b a else lil_get W0 a b))"
  using assms
proof (induction ps rule: rev_induct)
  case Nil
  then show ?case by simp
next
  case (snoc p ps)
  define W' where "W' = foldl (\<lambda>W p. borrow_step indices (fst p) W (snd p)) W0 ps"
  obtain i j where p: "p = (i, j)" by (cases p)
  from snoc.prems p have j: "j \<in> set (indices ! i)" "j < length W0"
    by simp_all
  from snoc have len: "length W' = length W0"
    and get: "\<And>a b. lil_get W' a b
        = (if (b, a) \<in> set ps \<and> b \<notin> set (indices ! a) then lil_get W0 b a else lil_get W0 a b)"
    by (simp_all add: W'_def)
  have read: "lil_get W' i j = lil_get W0 i j"
    using j by (simp add: get)
  show ?case
  proof (cases "i \<in> set (indices ! j)")
    case True
    then have "borrow_step indices i W' j = W'"
      by (simp add: borrow_step_def)
    with True len get show ?thesis
      by (auto simp: p W'_def [symmetric])
  next
    case False
    then have step: "borrow_step indices i W' j = lil_set W' j i (lil_get W0 i j)"
      by (simp add: borrow_step_def read)
    have "lil_get (lil_set W' j i (lil_get W0 i j)) a b
        = (if (b, a) \<in> set (ps @ [p]) \<and> b \<notin> set (indices ! a) then lil_get W0 b a else lil_get W0 a b)"
      for a b
      using False j len by (auto simp: lil_get_set get p)
    then show ?thesis
      using len by (simp add: W'_def [symmetric] p step)
  qed
qed

lemma borrow_get:
  assumes len: "length W0 = length indices"
    and bound: "\<forall>i < length indices. \<forall>j \<in> set (indices ! i). j < length indices"
  shows "lil_get (borrow indices W0) a b
     = (if b < length indices \<and> a \<in> set (indices ! b) \<and> b \<notin> set (indices ! a)
        then lil_get W0 b a else lil_get W0 a b)"
proof -
  define ps where "ps = concat (map (\<lambda>i. map (Pair i) (indices ! i)) [0..<length indices])"
  have mem: "(i, j) \<in> set ps \<longleftrightarrow> i < length indices \<and> j \<in> set (indices ! i)" for i j
    by (auto simp: ps_def)
  have ok: "\<forall>p \<in> set ps. snd p \<in> set (indices ! fst p) \<and> snd p < length W0"
    using bound len by (auto simp: ps_def)
  have "borrow indices W0 = foldl (\<lambda>W p. borrow_step indices (fst p) W (snd p)) W0 ps"
    unfolding borrow_def ps_def by (rule foldl_nested_pairs)
  then show ?thesis
    using borrow_pairs_get [OF ok] by (simp add: mem)
qed

lemma getitem_row_absent: "c \<notin> fst ` set row \<Longrightarrow> getitem_row row c = 0"
proof -
  assume "c \<notin> fst ` set row"
  then have "filter (\<lambda>e. fst e = c) row = []"
    by (auto simp: filter_empty_conv)
  then show ?thesis by (simp add: getitem_row_def)
qed

lemma sum_duplicates_canonical:
  assumes "sorted (map fst row)" and "distinct (map fst row)"
  shows "sum_duplicates row = row"
proof -
  have "sort (remdups (map fst row)) = map fst row"
    using assms by (simp add: distinct_remdups_id sorted_sort_id)
  moreover have "map (\<lambda>e. (fst e, getitem_row row (fst e))) row = row"
    using getitem_row_distinct [OF assms(2)] by (intro map_idI) auto
  ultimately show ?thesis
    by (simp add: sum_duplicates_def comp_def)
qed

lemma median_pos:
  assumes "xs \<noteq> []" and "\<forall>x \<in> set xs. 0 < x"
  shows "0 < median xs"
proof -
  have len: "length (sort xs) = length xs" by simp
  have pos: "0 < sort xs ! i" if "i < length xs" for i
    using assms(2) that nth_mem [of i "sort xs"] by simp
  have "length xs div 2 < length xs"
    using assms(1) by (cases xs) simp_all
  moreover have "length xs div 2 - 1 < length xs"
    using assms(1) by (cases xs) simp_all
  ultimately show ?thesis
    using pos [of "length xs div 2"] pos [of "length xs div 2 - 1"]
    by (simp add: median_def Let_def add_pos_pos)
qed

lemma connectivities_diffmap_sparse_unfold:
  fixes D :: csr
  defines "Dsq \<equiv> map (\<lambda>row. map (\<lambda>e. (fst e, (snd e)\<^sup>2)) (sum_duplicates row)) D"
  assumes nbrs: "get_indices_distances_from_sparse_matrix Dsq k = Inr (indices0, distances_sq0)"
    and nonempty: "\<not> (\<exists>r \<in> set (map tl distances_sq0). r = [])"
    and g1: "\<not> (\<exists>r \<in> set Dsq. \<exists>e \<in> set r. length Dsq \<le> fst e)"
    and g2: "\<not> (\<exists>i \<in> set [0..<length Dsq]. \<exists>e \<in> set (Dsq ! i).
               map median (map tl distances_sq0) ! i + map median (map tl distances_sq0) ! fst e = 0)"
  shows "connectivities_diffmap_sparse D k =
     Inr (borrow (map tl indices0)
            (map sum_duplicates
               (sparse_weights (map sqrt (map median (map tl distances_sq0)))
                  (map median (map tl distances_sq0)) Dsq)))"
  unfolding connectivities_diffmap_sparse_def Let_def Dsq_def [symmetric]
  using nonempty g1 g2 by (simp only: nbrs sum.case prod.case if_False)

text \<open>
  On a complete graph the sparse branch succeeds and its weight matrix is symmetric: the
  loop mirrors every weight that is stored in one direction only.
\<close>

lemma connectivities_diffmap_sparse_symmetric:
  assumes graph: "complete_knn_graph k D" and a: "a < length D" and b: "b < length D"
  shows "\<exists>W. connectivities_diffmap_sparse D k = Inr W \<and> lil_get W a b = lil_get W b a"
proof -
  define n where "n = length D"
  define sq where "sq = (\<lambda>e :: nat \<times> real. (fst e, (snd e)\<^sup>2))"
  define Dsq where "Dsq = map (\<lambda>row. map sq (sum_duplicates row)) D"
  define indices where "indices = map (\<lambda>i. map fst (D ! i)) [0..<n]"
  define distances_sq where "distances_sq = map (\<lambda>i. map snd (Dsq ! i)) [0..<n]"
  define sigmas_sq where "sigmas_sq = map median distances_sq"
  define sigmas where "sigmas = map sqrt sigmas_sq"
  define W0 where "W0 = sparse_weights sigmas sigmas_sq Dsq"
  from graph have k: "2 \<le> k"
    and R: "list_all (\<lambda>row. sorted (map fst row) \<and> distinct (map fst row) \<and> length row = k - 1 \<and>
                     list_all (\<lambda>e. snd e \<noteq> 0 \<and> fst e < length D) row) D"
    and S: "list_all (\<lambda>i. list_all (\<lambda>e. list_all (\<lambda>e'. fst e' \<noteq> i \<or> snd e' = snd e) (D ! fst e)) (D ! i))
       [0..<length D]"
    by (simp_all add: complete_knn_graph_def)
  have rows: "sorted (map fst (D ! i)) \<and> distinct (map fst (D ! i)) \<and>
        length (D ! i) = k - 1 \<and> (\<forall>e \<in> set (D ! i). snd e \<noteq> 0 \<and> fst e < n)" if "i < n" for i
  proof -
    from that have "D ! i \<in> set D" by (simp add: n_def)
    with R show ?thesis
      unfolding list_all_iff n_def by blast
  qed
  have sym: "snd e' = snd e"
    if "i < n" "e \<in> set (D ! i)" "e' \<in> set (D ! fst e)" "fst e' = i" for i e e'
  proof -
    from that(1) have "i \<in> set [0..<length D]" by (simp add: n_def)
    with S that(2,3,4) show ?thesis
      unfolding list_all_iff by blast
  qed
  have row_ne: "D ! i \<noteq> []" if "i < n" for i
  proof
    assume "D ! i = []"
    then have "length (D ! i) = 0" by simp
    with rows [OF that] k show False by arith
  qed
  have Dsq_nth: "Dsq ! i = map sq (D ! i)" if "i < n" for i
    using that rows [OF that] by (simp add: Dsq_def n_def sum_duplicates_canonical)
  have Dsq_fst: "map fst (Dsq ! i) = map fst (D ! i)" if "i < n" for i
    by (simp add: Dsq_nth [OF that] sq_def comp_def)
  have Dsq_len: "length Dsq = n"
    by (simp add: Dsq_def n_def)
  have Dsq_pos: "0 < snd e" if "i < n" "e \<in> set (Dsq ! i)" for i e
    using that rows [OF that(1)] by (auto simp: Dsq_nth sq_def)
  \<comment> \<open>the neighbour arrays\<close>
  have row: "sparse_row_neighbors (k - 1) i (Dsq ! i) = Inr (i # map fst (D ! i), 0 # map snd (Dsq ! i))"
    if "i < n" for i
  proof -
    have nz: "filter (\<lambda>e. snd e \<noteq> 0) (Dsq ! i) = Dsq ! i"
      using Dsq_pos [OF that] by (intro filter_True) force
    have cols: "nonzero_cols (Dsq ! i) = map fst (D ! i)"
      by (simp add: nonzero_cols_def nz Dsq_fst [OF that])
    have dist: "distinct (map fst (Dsq ! i))"
      using rows [OF that] by (simp add: Dsq_fst [OF that])
    have vals: "map (getitem_row (Dsq ! i)) (map fst (D ! i)) = map snd (Dsq ! i)"
      using vals_of_distinct_row [OF dist] by (simp add: cols eliminate_zeros_row_def nz)
    have "length (map fst (D ! i)) = k - 1" "length (Dsq ! i) = k - 1"
      using rows [OF that] by (simp_all add: Dsq_nth [OF that])
    then show ?thesis
      using vals k by (simp add: sparse_row_neighbors_def cols assign_row_def Let_def)
  qed
  then have "mapM_err (\<lambda>i. sparse_row_neighbors (k - 1) i (Dsq ! i)) [0..<length Dsq]
      = Inr (map (\<lambda>i. (i # map fst (D ! i), 0 # map snd (Dsq ! i))) [0..<length Dsq])"
    by (intro mapM_err_Inr) (simp add: Dsq_len)
  then have nbrs: "get_indices_distances_from_sparse_matrix Dsq k
      = Inr (map (\<lambda>i. i # map fst (D ! i)) [0..<n], map (\<lambda>i. 0 # map snd (Dsq ! i)) [0..<n])"
    using k by (simp add: get_indices_distances_from_sparse_matrix_def Dsq_len comp_def)
  have tl1: "map tl (map (\<lambda>i. i # map fst (D ! i)) [0..<n]) = indices"
    and tl2: "map tl (map (\<lambda>i. 0 # map snd (Dsq ! i)) [0..<n]) = distances_sq"
    by (simp_all add: indices_def distances_sq_def comp_def)
  \<comment> \<open>the bandwidths\<close>
  have nonempty: "\<not> (\<exists>r \<in> set distances_sq. r = [])"
  proof
    assume "\<exists>r \<in> set distances_sq. r = []"
    then obtain i where "i < n" "Dsq ! i = []"
      by (auto simp: distances_sq_def)
    with row_ne [of i] show False
      by (simp add: Dsq_nth)
  qed
  have q_pos: "0 < sigmas_sq ! i" if "i < n" for i
  proof -
    have "sigmas_sq ! i = median (map snd (Dsq ! i))"
      using that by (simp add: sigmas_sq_def distances_sq_def)
    moreover have "map snd (Dsq ! i) \<noteq> []"
      using row_ne [OF that] by (simp add: Dsq_nth [OF that])
    moreover have "\<forall>x \<in> set (map snd (Dsq ! i)). 0 < x"
      using Dsq_pos [OF that] by auto
    ultimately show ?thesis
      by (simp add: median_pos)
  qed
  have cols_bound: "fst e < n" if "i < n" "e \<in> set (Dsq ! i)" for i e
    using that rows [OF that(1)] by (auto simp: Dsq_nth sq_def)
  have g1: "\<not> (\<exists>r \<in> set Dsq. \<exists>e \<in> set r. length Dsq \<le> fst e)"
  proof
    assume "\<exists>r \<in> set Dsq. \<exists>e \<in> set r. length Dsq \<le> fst e"
    then obtain r e where "r \<in> set Dsq" and e: "e \<in> set r" "n \<le> fst e"
      by (auto simp: Dsq_len)
    then obtain i where "i < n" "r = Dsq ! i"
      by (auto simp: in_set_conv_nth Dsq_len)
    with e cols_bound [of i e] show False
      by simp
  qed
  have g2: "\<not> (\<exists>i \<in> set [0..<length Dsq]. \<exists>e \<in> set (Dsq ! i). sigmas_sq ! i + sigmas_sq ! fst e = 0)"
  proof
    assume "\<exists>i \<in> set [0..<length Dsq]. \<exists>e \<in> set (Dsq ! i). sigmas_sq ! i + sigmas_sq ! fst e = 0"
    then obtain i e where "i < n" "e \<in> set (Dsq ! i)" "sigmas_sq ! i + sigmas_sq ! fst e = 0"
      by (auto simp: Dsq_len)
    with q_pos [of i] q_pos [of "fst e"] cols_bound [of i e] show False
      by simp
  qed
  \<comment> \<open>the weights\<close>
  have W0_nth: "W0 ! i = map (\<lambda>e. (fst e, gauss_weight (sigmas ! i) (sigmas ! fst e)
      (sigmas_sq ! i) (sigmas_sq ! fst e) (snd e))) (Dsq ! i)" if "i < n" for i
    using that by (simp add: W0_def sparse_weights_def Dsq_len)
  have W0_fst: "map fst (W0 ! i) = map fst (D ! i)" if "i < n" for i
    by (simp add: W0_nth [OF that] comp_def Dsq_fst [OF that])
  have W0_len: "length W0 = n"
    by (simp add: W0_def sparse_weights_def Dsq_len)
  have canon: "map sum_duplicates W0 = W0"
  proof (intro map_idI)
    fix r assume "r \<in> set W0"
    then obtain i where "i < n" "r = W0 ! i"
      by (auto simp: in_set_conv_nth W0_len)
    with rows [of i] W0_fst [of i] show "sum_duplicates r = r"
      by (simp add: sum_duplicates_canonical)
  qed
  have run: "connectivities_diffmap_sparse D k = Inr (borrow indices W0)"
  proof -
    let ?I0 = "map (\<lambda>i. i # map fst (D ! i)) [0..<n]"
    let ?d0 = "map (\<lambda>i. 0 # map snd (Dsq ! i)) [0..<n]"
    have Dsq': "Dsq = map (\<lambda>row. map (\<lambda>e. (fst e, (snd e)\<^sup>2)) (sum_duplicates row)) D"
      by (simp add: Dsq_def sq_def)
    have med: "map median (map tl ?d0) = sigmas_sq"
      by (simp only: tl2 sigmas_sq_def)
    have n': "\<not> (\<exists>r \<in> set (map tl ?d0). r = [])"
      unfolding tl2 by (rule nonempty)
    have g2': "\<not> (\<exists>i \<in> set [0..<length Dsq]. \<exists>e \<in> set (Dsq ! i).
               map median (map tl ?d0) ! i + map median (map tl ?d0) ! fst e = 0)"
      unfolding med by (rule g2)
    have "connectivities_diffmap_sparse D k =
       Inr (borrow (map tl ?I0)
            (map sum_duplicates
               (sparse_weights (map sqrt (map median (map tl ?d0))) (map median (map tl ?d0)) Dsq)))"
      using nbrs n' g1 g2' unfolding Dsq' by (rule connectivities_diffmap_sparse_unfold)
    then show ?thesis
      by (simp only: med tl1 sigmas_def [symmetric] W0_def [symmetric] canon)
  qed
  \<comment> \<open>the entries before the loop\<close>
  have stored: "lil_get W0 i j = gauss_weight (sigmas ! i) (sigmas ! j) (sigmas_sq ! i) (sigmas_sq ! j) (v\<^sup>2)"
    if "i < n" "(j, v) \<in> set (D ! i)" for i j v
  proof -
    have "(j, gauss_weight (sigmas ! i) (sigmas ! j) (sigmas_sq ! i) (sigmas_sq ! j) (v\<^sup>2)) \<in> set (W0 ! i)"
      using that by (force simp: W0_nth Dsq_nth sq_def)
    moreover have "distinct (map fst (W0 ! i))"
      using rows [OF that(1)] by (simp add: W0_fst [OF that(1)])
    ultimately show ?thesis
      unfolding lil_get_def by (intro getitem_row_distinct)
  qed
  have absent: "lil_get W0 i j = 0" if "i < n" "j \<notin> set (indices ! i)" for i j
  proof -
    from that have "j \<notin> fst ` set (W0 ! i)"
      using W0_fst [OF that(1)] by (simp add: indices_def flip: set_map)
    then show ?thesis
      unfolding lil_get_def by (rule getitem_row_absent)
  qed
  have mutual: "lil_get W0 i j = lil_get W0 j i"
    if "i < n" "j < n" "j \<in> set (indices ! i)" "i \<in> set (indices ! j)" for i j
  proof -
    from that obtain v v' where v: "(j, v) \<in> set (D ! i)" and v': "(i, v') \<in> set (D ! j)"
      by (auto simp: indices_def)
    from sym [OF that(1) v, of "(i, v')"] v' have "v' = v"
      by simp
    with stored [OF that(1) v] stored [OF that(2) v'] show ?thesis
      by (simp add: gauss_weight_commute [of "sigmas ! i"])
  qed
  \<comment> \<open>the entries after the loop\<close>
  have ind_len: "length indices = n"
    by (simp add: indices_def)
  have bound: "\<forall>i < length indices. \<forall>j \<in> set (indices ! i). j < length indices"
    using rows by (auto simp: indices_def)
  have final: "lil_get (borrow indices W0) i j
     = (if j < n \<and> i \<in> set (indices ! j) \<and> j \<notin> set (indices ! i)
        then lil_get W0 j i else lil_get W0 i j)" for i j
    using borrow_get [OF _ bound, of W0 i j] by (simp add: W0_len ind_len)
  have an: "a < n" and bn: "b < n"
    using a b by (simp_all add: n_def)
  have "lil_get (borrow indices W0) a b = lil_get (borrow indices W0) b a"
  proof (cases "b \<in> set (indices ! a)")
    case ba: True
    show ?thesis
    proof (cases "a \<in> set (indices ! b)")
      case True
      with ba an bn mutual [OF an bn] show ?thesis
        by (simp add: final)
    next
      case False
      with ba an bn show ?thesis
        by (simp add: final)
    qed
  next
    case nba: False
    show ?thesis
    proof (cases "a \<in> set (indices ! b)")
      case True
      with nba an bn show ?thesis
        by (simp add: final)
    next
      case False
      with nba an bn absent [of a b] absent [of b a] show ?thesis
        by (simp add: final)
    qed
  qed
  with run show ?thesis by blast
qed

text \<open>
  C1 fails on the sparse branch. Three points on a line at 0, 1, 2 and two neighbours;
  the search misses point 0 as its own neighbour, so row 0 of the distance matrix has
  two non-zero entries, one more than \<open>n_neighbors - 1\<close>. The distances are symmetric
  wherever both directions are stored. The weight of (0, 2) is written on the stored
  pattern, column 2 is cut from the neighbours of 0, and nothing sets the weight to zero
  or copies it to (2, 0): \<open>W[0, 2] = exp (- 2)\<close> and \<open>W[2, 0] = 0\<close>. On the dense branch and
  on complete graphs the matrix is symmetric, as the lemmas above show.
\<close>

theorem gauss_sparse_overcomplete_row_asymmetric:
  "get_sparse_matrix_from_indices_distances_umap [[1, 2], [1, 0], [2, 1]] [[1, 2], [0, 1], [0, 1]] 3 2
     = Inr [[(1, 1), (2, 2)], [(0, 1)], [(1, 1)]] \<and>
   map_sum id s_connectivities
     (compute_connectivities_diffmap
        ((init_neighbors 3 1 [[0], [1], [2]])
           \<lparr> s_knn := Some True, s_n_neighbors := Some 2,
             s_distances := Some (Sparse [[(1, 1), (2, 2)], [(0, 1)], [(1, 1)]]) \<rparr>))
     = Inr (Some (Sparse [[(1, exp (- (1 / 2))), (2, exp (- 2))],
                          [(0, exp (- (1 / 2))), (2, exp (- (1 / 2)))],
                          [(1, exp (- (1 / 2)))]])) \<and>
   lil_get [[(1, exp (- (1 / 2))), (2, exp (- 2))],
            [(0, exp (- (1 / 2))), (2, exp (- (1 / 2)))],
            [(1, exp (- (1 / 2)))]] 0 2 = exp (- 2) \<and>
   lil_get [[(1, exp (- (1 / 2))), (2, exp (- 2))],
            [(0, exp (- (1 / 2))), (2, exp (- (1 / 2)))],
            [(1, exp (- (1 / 2)))]] 2 0 = 0 \<and>
   exp (- 2) \<noteq> (0 :: real)"
proof -
  have builder: "get_sparse_matrix_from_indices_distances_umap [[1, 2], [1, 0], [2, 1]] [[1, 2], [0, 1], [0, 1]] 3 2
     = Inr [[(1, 1), (2, 2)], [(0, 1)], [(1, 1)]]"
    by code_simp
  have kernel: "connectivities_diffmap_sparse [[(1, 1), (2, 2)], [(0, 1)], [(1, 1)]] 2
     = Inr [[(1, exp (- (1 / 2))), (2, exp (- 2))],
            [(0, exp (- (1 / 2))), (2, exp (- (1 / 2)))],
            [(1, exp (- (1 / 2)))]]"
    by (simp add: connectivities_diffmap_sparse_def get_indices_distances_from_sparse_matrix_def
        sparse_row_neighbors_def nonzero_cols_def getitem_row_def argsort_def assign_row_def
        upt_conv_Cons sum_duplicates_def median_def gauss_weight_def borrow_def borrow_step_def
        lil_get_def lil_set_def sparse_weights_def)
  show ?thesis
    using builder kernel
    by (simp add: compute_connectivities_diffmap_def init_neighbors_def lil_get_def getitem_row_def)
qed

subsection \<open>The neighbour count that is recorded\<close>







subsection \<open>The transition matrix\<close>

lemma nth_matmul:
  "i < n \<Longrightarrow> j < n \<Longrightarrow> matmul n A B ! i ! j = (\<Sum>k = 0..<n. A ! i ! k * B ! k ! j)"
  by (simp add: matmul_def interv_sum_list_conv_sum_set_nat)

lemma nth_diag: "i < n \<Longrightarrow> j < n \<Longrightarrow> diag n v ! i ! j = (if i = j then v ! i else 0)"
  by (simp add: diag_def)

lemma nth_sum_axis0: "j < n \<Longrightarrow> sum_axis0 n W ! j = (\<Sum>i = 0..<n. W ! i ! j)"
  by (simp add: sum_axis0_def interv_sum_list_conv_sum_set_nat)

lemma length_sum_axis0: "length (sum_axis0 n W) = n"
  by (simp add: sum_axis0_def)

lemma set_sum_axis0: "set (sum_axis0 n W) = (\<lambda>j. \<Sum>i = 0..<n. W ! i ! j) ` {0..<n}"
  by (simp add: sum_axis0_def interv_sum_list_conv_sum_set_nat)

lemma matmul_diag_left:
  assumes "i < n" "j < n"
  shows "matmul n (diag n v) A ! i ! j = v ! i * A ! i ! j"
proof -
  have "matmul n (diag n v) A ! i ! j = (\<Sum>k = 0..<n. (if i = k then v ! i else 0) * A ! k ! j)"
    using assms by (simp add: nth_matmul nth_diag)
  also have "\<dots> = (\<Sum>k = 0..<n. if k = i then v ! i * A ! i ! j else 0)"
    by (rule sum.cong) auto
  also have "\<dots> = v ! i * A ! i ! j"
    using assms by simp
  finally show ?thesis .
qed

lemma matmul_diag_right:
  assumes "i < n" "j < n"
  shows "matmul n A (diag n v) ! i ! j = A ! i ! j * v ! j"
proof -
  have "matmul n A (diag n v) ! i ! j = (\<Sum>k = 0..<n. A ! i ! k * (if k = j then v ! k else 0))"
    using assms by (simp add: nth_matmul nth_diag)
  also have "\<dots> = (\<Sum>k = 0..<n. if k = j then A ! i ! j * v ! j else 0)"
    by (rule sum.cong) auto
  also have "\<dots> = A ! i ! j * v ! j"
    using assms by simp
  finally show ?thesis .
qed

lemma nth_reciprocal: "i < length v \<Longrightarrow> reciprocal v ! i = 1 / v ! i"
  by (simp add: reciprocal_def)

lemma nth_diagonal: "i < n \<Longrightarrow> diagonal n A ! i = A ! i ! i"
  by (simp add: diagonal_def)

text \<open>The kernel after the optional density normalisation.\<close>

lemma kernel_entry:
  assumes "i < n" "j < n"
  shows "matmul n (matmul n (diag n (reciprocal (sum_axis0 n W))) W) (diag n (reciprocal (sum_axis0 n W))) ! i ! j
     = W ! i ! j / ((\<Sum>k = 0..<n. W ! k ! i) * (\<Sum>k = 0..<n. W ! k ! j))"
  using assms
  by (simp add: matmul_diag_right matmul_diag_left nth_reciprocal length_sum_axis0 nth_sum_axis0)

lemma conjugated_entry:
  assumes pos: "\<forall>j < n. 0 < (\<Sum>k = 0..<n. K ! k ! j)" and i: "i < n" and j: "j < n"
  defines "Zm \<equiv> diag n (reciprocal (map sqrt (sum_axis0 n K)))"
  shows "matmul n (matmul n Zm (matmul n (matmul n Zm K) Zm)) (diag n (reciprocal (diagonal n Zm))) ! i ! j
     = K ! i ! j / (\<Sum>k = 0..<n. K ! k ! i)"
proof -
  define c where "c l = (\<Sum>k = 0..<n. K ! k ! l)" for l
  have ci: "0 < c i" and cj: "0 < c j"
    using pos i j by (simp_all add: c_def)
  have z: "reciprocal (map sqrt (sum_axis0 n K)) ! l = 1 / sqrt (c l)" if "l < n" for l
    using that by (simp add: nth_reciprocal length_sum_axis0 nth_sum_axis0 c_def)
  have Zd: "Zm ! l ! l = 1 / sqrt (c l)" if "l < n" for l
    using that by (simp add: Zm_def nth_diag z)
  have zinv: "reciprocal (diagonal n Zm) ! j = sqrt (c j)"
    using j by (simp add: nth_reciprocal diagonal_def Zd)
  have "matmul n (matmul n Zm (matmul n (matmul n Zm K) Zm)) (diag n (reciprocal (diagonal n Zm))) ! i ! j
      = (1 / sqrt (c i)) * ((1 / sqrt (c i)) * K ! i ! j * (1 / sqrt (c j))) * sqrt (c j)"
    using i j by (simp add: matmul_diag_right zinv) (simp add: Zm_def matmul_diag_left matmul_diag_right z)
  also have "\<dots> = K ! i ! j / (sqrt (c i) * sqrt (c i))"
    using cj by simp
  also have "sqrt (c i) * sqrt (c i) = c i"
    using ci by simp
  finally show ?thesis by (simp add: c_def)
qed

lemma row_stochastic_of_symmetric_kernel:
  assumes sym: "\<forall>i < n. \<forall>j < n. K ! i ! j = K ! j ! i"
    and pos: "\<forall>j < n. 0 < (\<Sum>k = 0..<n. K ! k ! j)" and i: "i < n"
  defines "Zm \<equiv> diag n (reciprocal (map sqrt (sum_axis0 n K)))"
  shows "(\<Sum>j\<leftarrow>[0..<n]. matmul n (matmul n Zm (matmul n (matmul n Zm K) Zm))
            (diag n (reciprocal (diagonal n Zm))) ! i ! j) = 1"
proof -
  have "(\<Sum>j\<leftarrow>[0..<n]. matmul n (matmul n Zm (matmul n (matmul n Zm K) Zm))
            (diag n (reciprocal (diagonal n Zm))) ! i ! j)
      = (\<Sum>j = 0..<n. K ! i ! j / (\<Sum>k = 0..<n. K ! k ! i))"
    unfolding interv_sum_list_conv_sum_set_nat Zm_def
    by (rule sum.cong) (simp_all add: conjugated_entry [OF pos i])
  also have "\<dots> = (\<Sum>j = 0..<n. K ! i ! j) / (\<Sum>k = 0..<n. K ! k ! i)"
    by (simp add: sum_divide_distrib)
  also have "(\<Sum>j = 0..<n. K ! i ! j) = (\<Sum>k = 0..<n. K ! k ! i)"
    by (rule sum.cong) (use sym i in simp_all)
  also have "(\<Sum>k = 0..<n. K ! k ! i) / (\<Sum>k = 0..<n. K ! k ! i) = 1"
  proof -
    from pos i have "0 < (\<Sum>k = 0..<n. K ! k ! i)" by simp
    then show ?thesis by simp
  qed
  finally show ?thesis .
qed

lemma valid_connectivitiesD:
  assumes "valid_connectivities n W" "i < n" "j < n"
  shows "W ! i ! j = W ! j ! i" "0 \<le> W ! i ! j"
  using assms by (simp_all add: valid_connectivities_def list_all_iff)

lemma normalized_kernel_properties:
  assumes valid: "valid_connectivities n W"
    and pos: "\<forall>j < n. 0 < (\<Sum>k = 0..<n. W ! k ! j)"
  defines "K \<equiv> matmul n (matmul n (diag n (reciprocal (sum_axis0 n W))) W) (diag n (reciprocal (sum_axis0 n W)))"
  shows "\<forall>i < n. \<forall>j < n. K ! i ! j = K ! j ! i"
    and "\<forall>j < n. 0 < (\<Sum>k = 0..<n. K ! k ! j)"
proof -
  define q where "q l = (\<Sum>k = 0..<n. W ! k ! l)" for l
  have K: "K ! i ! j = W ! i ! j / (q i * q j)" if "i < n" "j < n" for i j
    using that by (simp add: K_def kernel_entry q_def)
  show "\<forall>i < n. \<forall>j < n. K ! i ! j = K ! j ! i"
    using valid_connectivitiesD(1) [OF valid] by (simp add: K mult.commute)
  show "\<forall>j < n. 0 < (\<Sum>k = 0..<n. K ! k ! j)"
  proof (intro allI impI)
    fix j assume j: "j < n"
    have qpos: "0 < q l" if "l < n" for l
      using pos that by (simp add: q_def)
    have "\<exists>k \<in> {0..<n}. 0 < W ! k ! j"
    proof (rule ccontr)
      assume "\<not> (\<exists>k \<in> {0..<n}. 0 < W ! k ! j)"
      then have "\<forall>k \<in> {0..<n}. W ! k ! j = 0"
        using valid_connectivitiesD(2) [OF valid _ j] by (auto simp: not_less intro: antisym)
      then have "q j = 0" by (simp add: q_def)
      with qpos [OF j] show False by simp
    qed
    then obtain k where k: "k \<in> {0..<n}" "0 < W ! k ! j" by blast
    have "0 < (\<Sum>k = 0..<n. W ! k ! j / (q k * q j))"
    proof (rule sum_pos2 [OF _ k(1)])
      show "0 < W ! k ! j / (q k * q j)"
        using k qpos [of k] qpos [OF j] by simp
      show "0 \<le> W ! l ! j / (q l * q j)" if "l \<in> {0..<n}" for l
        using that qpos [of l] qpos [OF j] valid_connectivitiesD(2) [OF valid _ j, of l]
        by (simp add: less_imp_le)
    qed simp
    also have "(\<Sum>k = 0..<n. W ! k ! j / (q k * q j)) = (\<Sum>k = 0..<n. K ! k ! j)"
      by (rule sum.cong) (use j K in simp_all)
    finally show "0 < (\<Sum>k = 0..<n. K ! k ! j)" .
  qed
qed

text \<open>
  C2. For a valid connectivity matrix (symmetric, weights in [0, 1]) whose sums along
  axis 0 are positive (by symmetry these are the row sums as well),
  \<^verbatim>\<open>compute_transitions\<close> succeeds, with or without density normalisation, and every
  row of the matrix that the property \<^verbatim>\<open>transitions\<close> then derives sums to 1. The
  sums are sums of reals: the statement is the exact one that the floating-point
  computation approximates.
\<close>

theorem transitions_row_stochastic:
  assumes conn: "s_connectivities s = Some Wm"
    and valid: "valid_connectivities (adata_n_obs s) (toarray (adata_n_obs s) Wm)"
    and pos: "list_all (\<lambda>x. 0 < x) (sum_axis0 (adata_n_obs s) (toarray (adata_n_obs s) Wm))"
    and i: "i < adata_n_obs s"
  shows "\<exists>s' T. compute_transitions density_normalize s = Inr s' \<and> transitions s' = Inr T \<and>
           (\<Sum>j\<leftarrow>[0..<adata_n_obs s]. T ! i ! j) = 1"
proof -
  define n where "n = adata_n_obs s"
  define W where "W = toarray n Wm"
  define q where "q = sum_axis0 n W"
  define K where "K = (if density_normalize
                        then matmul n (matmul n (diag n (reciprocal q)) W) (diag n (reciprocal q))
                        else W)"
  define Zm where "Zm = diag n (reciprocal (map sqrt (sum_axis0 n K)))"
  define s' where "s' = s\<lparr> s_Z := Some Zm, s_transitions_sym := Some (matmul n (matmul n Zm K) Zm) \<rparr>"
  have Wpos: "\<forall>j < n. 0 < (\<Sum>k = 0..<n. W ! k ! j)"
    using pos by (simp add: list_all_iff set_sum_axis0 n_def W_def)
  have Wsym: "\<forall>i < n. \<forall>j < n. W ! i ! j = W ! j ! i"
    using valid_connectivitiesD(1) [OF valid] by (simp add: n_def W_def)
  have K: "(\<forall>i < n. \<forall>j < n. K ! i ! j = K ! j ! i) \<and> (\<forall>j < n. 0 < (\<Sum>k = 0..<n. K ! k ! j))"
  proof (cases density_normalize)
    case True
    then show ?thesis
      using normalized_kernel_properties [of n W] valid Wpos
      by (simp add: K_def q_def n_def W_def)
  next
    case False
    then show ?thesis using Wpos Wsym by (simp add: K_def)
  qed
  have q0: "\<not> (\<exists>x \<in> set q. x = 0)"
    using Wpos by (auto simp: q_def set_sum_axis0)
  have c0: "\<not> (\<exists>x \<in> set (sum_axis0 n K). x \<le> 0)"
    using K by (auto simp: set_sum_axis0 not_le)
  have run: "compute_transitions density_normalize s = Inr s'"
    using q0 c0 conn unfolding K_def Zm_def s'_def
    by (cases density_normalize)
      (simp_all add: compute_transitions_def Let_def n_def [symmetric] W_def [symmetric]
        q_def [symmetric])
  have tr: "transitions s' = Inr (matmul n (matmul n Zm (matmul n (matmul n Zm K) Zm))
      (diag n (reciprocal (diagonal n Zm))))"
    by (simp add: transitions_def s'_def Let_def n_def)
  have "(\<Sum>j\<leftarrow>[0..<n]. matmul n (matmul n Zm (matmul n (matmul n Zm K) Zm))
      (diag n (reciprocal (diagonal n Zm))) ! i ! j) = 1"
  proof -
    from K have ksym: "\<forall>i < n. \<forall>j < n. K ! i ! j = K ! j ! i"
      and kpos: "\<forall>j < n. 0 < (\<Sum>k = 0..<n. K ! k ! j)"
      by blast+
    from i have "i < n" by (simp add: n_def)
    then show ?thesis
      unfolding Zm_def by (rule row_stochastic_of_symmetric_kernel [OF ksym kpos])
  qed
  with run tr show ?thesis
    unfolding n_def by blast
qed

text \<open>
  The theorem at the connectivity matrix of two observations joined by one edge.
\<close>

theorem transitions_row_stochastic_witness:
  "valid_connectivities 2 [[0, 1], [1, 0]] \<and>
   list_all (\<lambda>x. 0 < x) (sum_axis0 2 [[0, 1], [1, 0]]) \<and>
   (\<exists>s' T. compute_transitions True
               ((init_neighbors 2 1 [[0], [1]])\<lparr> s_connectivities := Some (Dense [[0, 1], [1, 0]]) \<rparr>) = Inr s' \<and>
            transitions s' = Inr T \<and> (\<Sum>j\<leftarrow>[0..<2]. T ! 0 ! j) = 1)"
proof -
  have v: "valid_connectivities 2 [[0, 1], [1, 0]]"
    by (simp add: valid_connectivities_def upt_conv_Cons numeral_2_eq_2)
  have p: "list_all (\<lambda>x. 0 < x) (sum_axis0 2 [[0, 1], [1, 0]])"
    by (simp add: sum_axis0_def upt_conv_Cons numeral_2_eq_2)
  from v p
    transitions_row_stochastic [of "(init_neighbors 2 1 [[0], [1]])\<lparr> s_connectivities := Some (Dense [[0, 1], [1, 0]]) \<rparr>"
      "Dense [[0, 1], [1, 0]]" 0 True]
  show ?thesis
    by (simp add: init_neighbors_def toarray_def)
qed

text \<open>
  Symmetry is needed: both sums of \<^verbatim>\<open>compute_transitions\<close> run along axis 0, and for
  the matrix with rows (1, 1) and (0, 1), whose row and column sums are all positive,
  the first row of the transition matrix sums to 2.
\<close>

lemma transitions_row_sum_of_asymmetric_matrix:
  "\<exists>s' T. compute_transitions False
              ((init_neighbors 2 1 [[0], [1]])\<lparr> s_connectivities := Some (Dense [[1, 1], [0, 1]]) \<rparr>) = Inr s' \<and>
           transitions s' = Inr T \<and> (\<Sum>j\<leftarrow>[0..<2]. T ! 0 ! j) = 2"
proof -
  define s where "s = (init_neighbors 2 1 [[0], [1]])\<lparr> s_connectivities := Some (Dense [[1, 1], [0, 1]]) \<rparr>"
  define K :: matrix where "K = [[1, 1], [0, 1]]"
  define Zm where "Zm = diag 2 (reciprocal (map sqrt (sum_axis0 2 K)))"
  define T where "T = matmul 2 (matmul 2 Zm (matmul 2 (matmul 2 Zm K) Zm)) (diag 2 (reciprocal (diagonal 2 Zm)))"
  have sums: "sum_axis0 2 K = [1, 2]"
    by (simp add: sum_axis0_def K_def upt_conv_Cons numeral_2_eq_2)
  have pos: "\<forall>j < 2. 0 < (\<Sum>k = 0..<2. K ! k ! j)"
    by (auto simp: K_def numeral_2_eq_2 less_Suc_eq)
  have n: "adata_n_obs s = 2" and c: "s_connectivities s = Some (Dense K)"
    by (simp_all add: s_def init_neighbors_def K_def)
  have run: "compute_transitions False s = Inr (s\<lparr> s_Z := Some Zm, s_transitions_sym := Some (matmul 2 (matmul 2 Zm K) Zm) \<rparr>)"
    unfolding compute_transitions_def c n Zm_def by (simp add: toarray_def sums Let_def)
  have tr: "transitions (s\<lparr> s_Z := Some Zm, s_transitions_sym := Some (matmul 2 (matmul 2 Zm K) Zm) \<rparr>) = Inr T"
    by (simp add: transitions_def n T_def)
  have entry: "T ! 0 ! j = K ! 0 ! j / (\<Sum>k = 0..<2. K ! k ! 0)" if "j < 2" for j
    unfolding T_def Zm_def using pos _ that by (rule conjugated_entry) simp
  have "(\<Sum>j\<leftarrow>[0..<2]. T ! 0 ! j) = T ! 0 ! 0 + T ! 0 ! 1"
    by (simp add: upt_conv_Cons numeral_2_eq_2)
  also have "\<dots> = 2"
    by (simp add: entry) (simp add: K_def numeral_2_eq_2)
  finally show ?thesis
    using run tr unfolding s_def by blast
qed

subsection \<open>Diffusion pseudotime\<close>

lemma dpt_row_sq_self: "dpt_row_sq ev B i i = 0"
  by (simp add: dpt_row_sq_def)

lemma weighted_diff_sq_commute: "(c * (x - y))\<^sup>2 = (c * (y - x))\<^sup>2" for c x y :: real
  by (simp add: power_mult_distrib power2_commute)

lemma dpt_row_sq_commute: "dpt_row_sq ev B i j = dpt_row_sq ev B j i"
  unfolding dpt_row_sq_def
  by (simp only: weighted_diff_sq_commute [of _ "B ! i ! _" "B ! j ! _"]
      power2_commute [of "B ! i ! _" "B ! j ! _"])

lemma dpt_row_sq_nonneg: "0 \<le> dpt_row_sq ev B i j"
  unfolding dpt_row_sq_def by (intro add_nonneg_nonneg sum_list_nonneg) auto

lemma dpt_row_sq_not_neg: "\<not> dpt_row_sq ev B i j < 0"
  using dpt_row_sq_nonneg [of ev B i j] by simp

lemma get_dpt_row_wf:
  assumes ev: "s_eigen_values s = Some ev" and B: "s_eigen_basis s = Some B" and ne: "ev \<noteq> []"
    and cols: "list_all (\<lambda>r. length r = length ev) B" and i: "i < length B"
    and ncc: "s_number_connected_components s = Some c"
    and cc: "s_connected_components s = Some (c', labels)" and len: "length labels = length B"
  shows "get_dpt_row s i =
     Inr (map (\<lambda>j. if 1 < c \<and> labels ! j \<noteq> labels ! i then PInf
                    else Fin (sqrt (dpt_row_sq ev B i j))) [0..<length B])"
proof (cases "1 < c")
  case True
  have "map (\<lambda>(x, keep). if keep then Fin (sqrt x) else PInf)
          (zip (map (dpt_row_sq ev B i) [0..<length B]) (map (\<lambda>l. l = labels ! i) labels))
      = map (\<lambda>j. if labels ! j \<noteq> labels ! i then PInf else Fin (sqrt (dpt_row_sq ev B i j))) [0..<length B]"
    using len by (intro nth_equalityI) simp_all
  with True show ?thesis
    using assms by (simp add: get_dpt_row_def Let_def list_all_iff)
next
  case False
  then show ?thesis
    using assms by (simp add: get_dpt_row_def Let_def list_all_iff comp_def)
qed

lemma get_dpt_row_entries:
  assumes "get_dpt_row s i = Inr row"
  shows "i < length row \<and> row ! i = Fin 0 \<and> (\<forall>x \<in> set row. x = PInf \<or> (\<exists>a. x = Fin a \<and> 0 \<le> a))"
  using assms
  by (auto simp: get_dpt_row_def Let_def not_le dpt_row_sq_self dpt_row_sq_not_neg
      split: option.splits if_splits sum.splits prod.splits dest!: set_zip_leftD)

lemma sum_list_filter_split:
  "(\<Sum>x\<leftarrow>filter P xs. f x) + (\<Sum>x\<leftarrow>filter (\<lambda>x. \<not> P x) xs. g x)
     = (\<Sum>x\<leftarrow>xs. if P x then f x else g x)" for f g :: "'a \<Rightarrow> real"
  by (induction xs) simp_all

lemma dpt_row_sq_weighted:
  "dpt_row_sq ev B i j =
     (\<Sum>l\<leftarrow>[0..<length ev].
        ((if ev ! l < 9994 / 10000 then ev ! l / (1 - ev ! l) else 1) * (B ! i ! l - B ! j ! l))\<^sup>2)"
proof -
  have "dpt_row_sq ev B i j =
      (\<Sum>l\<leftarrow>[0..<length ev]. if ev ! l < 9994 / 10000
         then (ev ! l / (1 - ev ! l) * (B ! i ! l - B ! j ! l))\<^sup>2 else (B ! i ! l - B ! j ! l)\<^sup>2)"
    unfolding dpt_row_sq_def not_less [symmetric] by (rule sum_list_filter_split)
  also have "\<dots> = (\<Sum>l\<leftarrow>[0..<length ev].
        ((if ev ! l < 9994 / 10000 then ev ! l / (1 - ev ! l) else 1) * (B ! i ! l - B ! j ! l))\<^sup>2)"
    by (intro arg_cong [where f = sum_list] map_cong) simp_all
  finally show ?thesis .
qed

lemma sqrt_sum_list_squares_triangle:
  "sqrt (\<Sum>x\<leftarrow>xs. (f x + g x)\<^sup>2) \<le> sqrt (\<Sum>x\<leftarrow>xs. (f x)\<^sup>2) + sqrt (\<Sum>x\<leftarrow>xs. (g x)\<^sup>2)"
  for f g :: "'a \<Rightarrow> real"
proof (induction xs)
  case Nil
  then show ?case by simp
next
  case (Cons x xs)
  define S where "S = (\<Sum>x\<leftarrow>xs. (f x + g x)\<^sup>2)"
  define A where "A = sqrt (\<Sum>x\<leftarrow>xs. (f x)\<^sup>2)"
  define C where "C = sqrt (\<Sum>x\<leftarrow>xs. (g x)\<^sup>2)"
  have nonneg: "0 \<le> S" "0 \<le> (\<Sum>x\<leftarrow>xs. (f x)\<^sup>2)" "0 \<le> (\<Sum>x\<leftarrow>xs. (g x)\<^sup>2)"
    unfolding S_def by (intro sum_list_nonneg; auto)+
  have AC: "0 \<le> A" "0 \<le> C" "A\<^sup>2 = (\<Sum>x\<leftarrow>xs. (f x)\<^sup>2)" "C\<^sup>2 = (\<Sum>x\<leftarrow>xs. (g x)\<^sup>2)"
    using nonneg by (simp_all add: A_def C_def)
  from Cons.IH have "sqrt S \<le> A + C"
    by (simp add: S_def A_def C_def)
  then have "(sqrt S)\<^sup>2 \<le> (A + C)\<^sup>2"
    using nonneg(1) by (intro power_mono) simp_all
  then have "S \<le> (A + C)\<^sup>2"
    using nonneg(1) by simp
  then have "sqrt ((f x + g x)\<^sup>2 + S) \<le> sqrt ((f x + g x)\<^sup>2 + (A + C)\<^sup>2)"
    by simp
  also have "\<dots> \<le> sqrt ((f x)\<^sup>2 + A\<^sup>2) + sqrt ((g x)\<^sup>2 + C\<^sup>2)"
    by (rule real_sqrt_sum_squares_triangle_ineq)
  finally show ?case
    by (simp add: S_def AC)
qed

lemma dpt_triangle:
  "sqrt (dpt_row_sq ev B i k) \<le> sqrt (dpt_row_sq ev B i j) + sqrt (dpt_row_sq ev B j k)"
proof -
  define w where "w l = (if ev ! l < 9994 / 10000 then ev ! l / (1 - ev ! l) else 1)" for l
  have "(\<Sum>l\<leftarrow>[0..<length ev]. (w l * (B ! i ! l - B ! k ! l))\<^sup>2)
      = (\<Sum>l\<leftarrow>[0..<length ev]. (w l * (B ! i ! l - B ! j ! l) + w l * (B ! j ! l - B ! k ! l))\<^sup>2)"
    by (intro arg_cong [where f = sum_list] map_cong) (simp_all add: algebra_simps)
  then show ?thesis
    unfolding dpt_row_sq_weighted w_def [symmetric]
    using sqrt_sum_list_squares_triangle
      [of "\<lambda>l. w l * (B ! i ! l - B ! j ! l)" "\<lambda>l. w l * (B ! j ! l - B ! k ! l)" "[0..<length ev]"]
    by simp
qed

text \<open>
  C3. For a computed spectral decomposition and a computed partition into connected
  components, the rows of any observations \<open>i\<close> and \<open>j\<close> are computed, the entry (i, i) is
  0, the entries (i, j) and (j, i) are equal, an entry between observations of one
  component is a finite number that is not negative, an entry between observations of
  different components is plus infinity, and within one component the entries obey the
  triangle inequality.
\<close>

theorem dpt_row_pseudometric:
  assumes spec: "spectral_wf s" and comp: "components_wf s"
    and cc: "s_connected_components s = Some (c, labels)"
    and i: "i < adata_n_obs s" and j: "j < adata_n_obs s" and k: "k < adata_n_obs s"
  shows "\<exists>ri rj. get_dpt_row s i = Inr ri \<and> get_dpt_row s j = Inr rj \<and>
           length ri = adata_n_obs s \<and> length rj = adata_n_obs s \<and>
           ri ! i = Fin 0 \<and> ri ! j = rj ! i \<and>
           (if labels ! i = labels ! j
            then \<exists>a. ri ! j = Fin a \<and> 0 \<le> a
            else ri ! j = PInf) \<and>
           (if labels ! i = labels ! j \<and> labels ! j = labels ! k
            then \<exists>a b c. ri ! j = Fin a \<and> rj ! k = Fin b \<and> ri ! k = Fin c \<and> c \<le> a + b
            else ri ! j = PInf \<or> rj ! k = PInf)"
proof -
  from spec obtain ev B where ev: "s_eigen_values s = Some ev" and B: "s_eigen_basis s = Some B"
    and ne: "ev \<noteq> []" and n: "length B = adata_n_obs s"
    and cols: "list_all (\<lambda>r. length r = length ev) B"
    by (auto simp: spectral_wf_def split: option.splits)
  from comp cc have ncc: "s_number_connected_components s = Some c"
    and len: "length labels = length B" and c: "c = length (remdups labels)"
    by (auto simp: components_wf_def n split: option.splits)
  define row where "row k = map (\<lambda>j. if 1 < c \<and> labels ! j \<noteq> labels ! k then PInf
                    else Fin (sqrt (dpt_row_sq ev B k j))) [0..<length B]" for k
  have rows: "get_dpt_row s k = Inr (row k)" if "k < length B" for k
    unfolding row_def using ev B ne cols that ncc cc len by (rule get_dpt_row_wf)
  have many: "1 < c" if "labels ! i \<noteq> labels ! j"
  proof -
    have "{labels ! i, labels ! j} \<subseteq> set labels"
      using i j len n by simp
    then have "card {labels ! i, labels ! j} \<le> card (set labels)"
      by (intro card_mono) simp_all
    with that show ?thesis
      by (simp add: c length_remdups_card_conv)
  qed
  have "row i ! i = Fin 0"
    using i n by (simp add: row_def dpt_row_sq_self)
  moreover have "row i ! j = row j ! i"
    using i j n by (auto simp: row_def dpt_row_sq_commute)
  moreover have "\<exists>a. row i ! j = Fin a \<and> 0 \<le> a" if "labels ! i = labels ! j"
    using that i j n by (simp add: row_def dpt_row_sq_nonneg)
  moreover have "row i ! j = PInf" if "labels ! i \<noteq> labels ! j"
    using that many i j n by (auto simp: row_def)
  moreover have "\<exists>a b c. row i ! j = Fin a \<and> row j ! k = Fin b \<and> row i ! k = Fin c \<and> c \<le> a + b"
    if "labels ! i = labels ! j" "labels ! j = labels ! k"
    using that i j k n dpt_triangle [of ev B i k j] by (simp add: row_def)
  moreover have "row i ! j = PInf \<or> row j ! k = PInf"
    if "\<not> (labels ! i = labels ! j \<and> labels ! j = labels ! k)"
  proof (cases "labels ! i = labels ! j")
    case True
    with that have "labels ! j \<noteq> labels ! k" by simp
    then have "1 < c"
      using many True that
        card_mono [of "set labels" "{labels ! j, labels ! k}"] j k len n
      by (simp add: c length_remdups_card_conv)
    with \<open>labels ! j \<noteq> labels ! k\<close> show ?thesis
      using j k n by (auto simp: row_def)
  next
    case False
    with many show ?thesis
      using i j n by (auto simp: row_def)
  qed
  moreover have "length (row i) = adata_n_obs s" "length (row j) = adata_n_obs s"
    by (simp_all add: row_def n)
  ultimately show ?thesis
    using rows [of i] rows [of j] i j n by auto
qed

text \<open>
  The theorem at two observations in two components.
\<close>

theorem dpt_row_pseudometric_witness:
  "spectral_wf ((init_neighbors 2 1 [[0], [1]])
      \<lparr> s_eigen_values := Some [1 / 2], s_eigen_basis := Some [[1], [2]],
        s_number_connected_components := Some 2, s_connected_components := Some (2, [0, 1]) \<rparr>) \<and>
   components_wf ((init_neighbors 2 1 [[0], [1]])
      \<lparr> s_eigen_values := Some [1 / 2], s_eigen_basis := Some [[1], [2]],
        s_number_connected_components := Some 2, s_connected_components := Some (2, [0, 1]) \<rparr>) \<and>
   (\<exists>ri rj.
      get_dpt_row ((init_neighbors 2 1 [[0], [1]])
        \<lparr> s_eigen_values := Some [1 / 2], s_eigen_basis := Some [[1], [2]],
          s_number_connected_components := Some 2, s_connected_components := Some (2, [0, 1]) \<rparr>) 0 = Inr ri \<and>
      get_dpt_row ((init_neighbors 2 1 [[0], [1]])
        \<lparr> s_eigen_values := Some [1 / 2], s_eigen_basis := Some [[1], [2]],
          s_number_connected_components := Some 2, s_connected_components := Some (2, [0, 1]) \<rparr>) 1 = Inr rj \<and>
      ri ! 0 = Fin 0 \<and> ri ! 1 = rj ! 0 \<and> ri ! 1 = PInf)"
proof -
  let ?s = "(init_neighbors 2 1 [[0], [1]])
      \<lparr> s_eigen_values := Some [1 / 2], s_eigen_basis := Some [[1], [2]],
        s_number_connected_components := Some 2, s_connected_components := Some (2, [0, 1]) \<rparr>"
  have a: "spectral_wf ?s" and b: "components_wf ?s"
    and c: "s_connected_components ?s = Some (2, [0, 1])" and d: "adata_n_obs ?s = 2"
    by (simp_all add: spectral_wf_def components_wf_def init_neighbors_def)
  from dpt_row_pseudometric [OF a b c, of 0 1 0] a b show ?thesis
    unfolding d by auto
qed

lemma amax_eq_Max: "xs \<noteq> [] \<Longrightarrow> amax xs = Max (set xs)"
  by (cases xs) (simp_all add: amax_def Max.set_eq_fold [symmetric])

lemma set_finite_entries: "set (finite_entries row) = {a. Fin a \<in> set row}"
  by (induction row) (auto simp: finite_entries_def split: fval.splits)

text \<open>
  C4, as the code has it. When the row of the root has a positive finite entry, the
  pseudotime is that row divided by its largest finite entry, which is positive: the
  entry of the root is 0, an infinite entry stays infinite, and a finite entry is
  divided by the maximum and lies in [0, 1].
\<close>

theorem pseudotime_of_root:
  assumes root: "s_iroot s = Some r" and row: "get_dpt_row s r = Inr row"
    and far: "Fin x \<in> set row" "0 < x"
  shows "\<exists>s' pt. set_pseudotime s = Inr s' \<and> s_pseudotime s' = Some pt \<and>
           0 < amax (finite_entries row) \<and>
           pt = map (\<lambda>x. fdiv x (amax (finite_entries row))) row \<and>
           pt ! r = Fin 0 \<and>
           list_all (\<lambda>j. (row ! j = PInf \<and> pt ! j = PInf) \<or>
                        (\<exists>a. row ! j = Fin a \<and> pt ! j = Fin (a / amax (finite_entries row)) \<and>
                             0 \<le> a / amax (finite_entries row) \<and> a / amax (finite_entries row) \<le> 1))
             [0..<length row]"
proof -
  define M where "M = amax (finite_entries row)"
  define pt where "pt = map (\<lambda>x. fdiv x M) row"
  from get_dpt_row_entries [OF row] have r: "r < length row" and r0: "row ! r = Fin 0"
    and ent: "\<forall>x \<in> set row. x = PInf \<or> (\<exists>a. x = Fin a \<and> 0 \<le> a)"
    by blast+
  have ne: "finite_entries row \<noteq> []"
    using far(1) set_finite_entries [of row] by auto
  have M: "M = Max {a. Fin a \<in> set row}"
    using ne by (simp add: M_def amax_eq_Max set_finite_entries)
  have fin: "finite {a. Fin a \<in> set row}"
    using set_finite_entries [of row, symmetric] by simp
  have le: "a \<le> M" if "Fin a \<in> set row" for a
    unfolding M using fin that by (intro Max_ge) simp_all
  have Mpos: "0 < M"
    using le [OF far(1)] far(2) by simp
  have get: "onfly_getitem (get_dpt_row s) (distances_dpt s) r = Inr (row, \<lparr> of_rows = [r \<mapsto> row], of_restrict_array = None \<rparr>)"
    by (simp add: onfly_getitem_def distances_dpt_def row)
  have clean: "\<not> (\<exists>x \<in> set row. x = NInf \<or> x = NaN)"
    using ent by auto
  have run: "set_pseudotime s = Inr (s\<lparr> s_pseudotime := Some pt \<rparr>)"
    using root get clean ne by (simp add: set_pseudotime_def pt_def M_def)
  have "pt ! r = Fin 0"
    using r r0 Mpos by (simp add: pt_def)
  moreover have "(row ! j = PInf \<and> pt ! j = PInf) \<or>
      (\<exists>a. row ! j = Fin a \<and> pt ! j = Fin (a / M) \<and> 0 \<le> a / M \<and> a / M \<le> 1)"
    if j: "j < length row" for j
  proof -
    from ent j have "row ! j = PInf \<or> (\<exists>a. row ! j = Fin a \<and> 0 \<le> a)"
      by (simp add: nth_mem)
    then show ?thesis
    proof
      assume "row ! j = PInf"
      then show ?thesis using j Mpos by (simp add: pt_def)
    next
      assume "\<exists>a. row ! j = Fin a \<and> 0 \<le> a"
      then obtain a where a: "row ! j = Fin a" "0 \<le> a" by blast
      then have "Fin a \<in> set row" using j nth_mem [of j row] by simp
      from le [OF this] a Mpos j show ?thesis
        by (simp add: pt_def)
    qed
  qed
  ultimately show ?thesis
    using run Mpos unfolding M_def [symmetric] pt_def [symmetric]
    by (simp add: list_all_iff)
qed

text \<open>
  The theorem at two observations in one component, the first as root.
\<close>

theorem pseudotime_of_root_witness:
  "get_dpt_row ((init_neighbors 2 1 [[0], [1]])
      \<lparr> s_iroot := Some 0, s_eigen_values := Some [1 / 2], s_eigen_basis := Some [[1], [2]],
        s_number_connected_components := Some 1, s_connected_components := Some (1, [0, 0]) \<rparr>) 0
     = Inr [Fin 0, Fin 1] \<and>
   map_sum id s_pseudotime
     (set_pseudotime ((init_neighbors 2 1 [[0], [1]])
        \<lparr> s_iroot := Some 0, s_eigen_values := Some [1 / 2], s_eigen_basis := Some [[1], [2]],
          s_number_connected_components := Some 1, s_connected_components := Some (1, [0, 0]) \<rparr>))
     = Inr (Some [Fin 0, Fin 1])"
proof -
  let ?s = "(init_neighbors 2 1 [[0], [1]])
      \<lparr> s_iroot := Some 0, s_eigen_values := Some [1 / 2], s_eigen_basis := Some [[1], [2]],
        s_number_connected_components := Some 1, s_connected_components := Some (1, [0, 0]) \<rparr>"
  have root: "s_iroot ?s = Some 0"
    by (simp add: init_neighbors_def)
  have row: "get_dpt_row ?s 0 = Inr [Fin 0, Fin 1]"
    by (simp add: get_dpt_row_def dpt_row_sq_def init_neighbors_def upt_conv_Cons numeral_2_eq_2)
  have far: "Fin 1 \<in> set [Fin 0, Fin 1]" "(0 :: real) < 1"
    by simp_all
  from pseudotime_of_root [OF root row far] row show ?thesis
    by (auto simp: finite_entries_def amax_def)
qed

text \<open>
  Against C4 as stated: a root that is alone in its component. Its row is 0 at the root
  and infinite elsewhere, the largest finite entry is 0, and the division 0/0 leaves
  the pseudotime of the root not a number.
\<close>

theorem pseudotime_isolated_root_counterexample:
  "get_dpt_row ((init_neighbors 2 1 [[0], [1]])
      \<lparr> s_iroot := Some 0, s_eigen_values := Some [1 / 2], s_eigen_basis := Some [[1], [2]],
        s_number_connected_components := Some 2, s_connected_components := Some (2, [0, 1]) \<rparr>) 0
     = Inr [Fin 0, PInf] \<and>
   map_sum id s_pseudotime
     (set_pseudotime ((init_neighbors 2 1 [[0], [1]])
        \<lparr> s_iroot := Some 0, s_eigen_values := Some [1 / 2], s_eigen_basis := Some [[1], [2]],
          s_number_connected_components := Some 2, s_connected_components := Some (2, [0, 1]) \<rparr>))
     = Inr (Some [NaN, PInf]) \<and>
   [NaN, PInf] ! 0 \<noteq> Fin 0"
  by (simp add: set_pseudotime_def onfly_getitem_def distances_dpt_def get_dpt_row_def
      dpt_row_sq_def finite_entries_def amax_def init_neighbors_def upt_conv_Cons numeral_2_eq_2)

subsection \<open>Root selection\<close>

lemma sqrt_sentinel: "\<not> sqrt (10 ^ 10) < (1 / 10 ^ 10 :: real)"
proof -
  have "(1 :: real) \<le> sqrt (10 ^ 10)"
    by (rule real_sqrt_ge_one) simp
  moreover have "(1 / 10 ^ 10 :: real) \<le> 1" by simp
  ultimately show ?thesis by linarith
qed

text \<open>
  What the scan returns from position \<open>i\<close> on: either nothing beat the current best, or
  the result is the position of a row that beat everything before it, and the scan
  stopped there or the row is a minimum of what was left.
\<close>

lemma iroot_scan_spec:
  fixes X :: "real list list" and xroot :: "real list" and i ib :: nat and best :: real
  assumes "\<not> sqrt best < 1 / 10 ^ 10"
  defines "ds \<equiv> map (\<lambda>x. sq_dist x xroot) X"
  defines "r \<equiv> iroot_scan X xroot i best ib"
  shows "(r = ib \<and> (\<forall>d \<in> set ds. best \<le> d)) \<or>
         (i \<le> r \<and> r - i < length ds \<and> ds ! (r - i) < best \<and>
          (\<forall>j < r - i. ds ! (r - i) < ds ! j \<and> \<not> sqrt (ds ! j) < 1 / 10 ^ 10) \<and>
          (sqrt (ds ! (r - i)) < 1 / 10 ^ 10 \<or> (\<forall>j < length ds. ds ! (r - i) \<le> ds ! j)))"
  using assms(1) unfolding ds_def r_def
proof (induction X arbitrary: i best ib)
  case Nil
  then show ?case by simp
next
  case (Cons x X)
  define d where "d = sq_dist x xroot"
  define ds where "ds = map (\<lambda>x. sq_dist x xroot) X"
  show ?case
  proof (cases "d < best")
    case better: True
    show ?thesis
    proof (cases "sqrt d < 1 / 10 ^ 10")
      case True
      with better show ?thesis
        by (simp add: d_def)
    next
      case False
      define r where "r = iroot_scan X xroot (Suc i) d i"
      have res: "iroot_scan (x # X) xroot i best ib = r"
        using better False by (simp add: d_def r_def)
      from Cons.IH [OF False, of "Suc i" i, folded r_def ds_def]
      consider (none) "r = i" "\<forall>e \<in> set ds. d \<le> e"
        | (later) "Suc i \<le> r" "r - Suc i < length ds" "ds ! (r - Suc i) < d"
            "\<forall>j < r - Suc i. ds ! (r - Suc i) < ds ! j \<and> \<not> sqrt (ds ! j) < 1 / 10 ^ 10"
            "sqrt (ds ! (r - Suc i)) < 1 / 10 ^ 10 \<or> (\<forall>j < length ds. ds ! (r - Suc i) \<le> ds ! j)"
        by blast
      then have "i \<le> r \<and> r - i < length (d # ds) \<and> (d # ds) ! (r - i) < best \<and>
          (\<forall>j < r - i. (d # ds) ! (r - i) < (d # ds) ! j \<and> \<not> sqrt ((d # ds) ! j) < 1 / 10 ^ 10) \<and>
          (sqrt ((d # ds) ! (r - i)) < 1 / 10 ^ 10 \<or> (\<forall>j < length (d # ds). (d # ds) ! (r - i) \<le> (d # ds) ! j))"
      proof cases
        case none
        then show ?thesis
          using better by (auto simp: nth_Cons' )
      next
        case later
        then obtain k where k: "r - i = Suc k" "r - Suc i = k"
          by (cases "r - i") auto
        have "\<forall>j < Suc k. ds ! k < (d # ds) ! j \<and> \<not> sqrt ((d # ds) ! j) < 1 / 10 ^ 10"
          using later(3,4) False k by (auto simp: nth_Cons split: nat.splits)
        moreover have "sqrt (ds ! k) < 1 / 10 ^ 10 \<or> (\<forall>j < Suc (length ds). ds ! k \<le> (d # ds) ! j)"
          using later(3,5) k by (auto simp: nth_Cons split: nat.splits)
        ultimately show ?thesis
          using later(1,2,3) better k by simp
      qed
      then show ?thesis
        unfolding res by (simp add: d_def ds_def)
    qed
  next
    case worse: False
    define r where "r = iroot_scan X xroot (Suc i) best ib"
    have res: "iroot_scan (x # X) xroot i best ib = r"
      using worse by (simp add: d_def r_def)
    have far: "\<not> sqrt d < 1 / 10 ^ 10"
    proof
      assume "sqrt d < 1 / 10 ^ 10"
      moreover from worse have "sqrt best \<le> sqrt d" by simp
      ultimately show False using Cons.prems by linarith
    qed
    from Cons.IH [OF Cons.prems, of "Suc i" ib, folded r_def ds_def]
    consider (none) "r = ib" "\<forall>e \<in> set ds. best \<le> e"
      | (later) "Suc i \<le> r" "r - Suc i < length ds" "ds ! (r - Suc i) < best"
          "\<forall>j < r - Suc i. ds ! (r - Suc i) < ds ! j \<and> \<not> sqrt (ds ! j) < 1 / 10 ^ 10"
          "sqrt (ds ! (r - Suc i)) < 1 / 10 ^ 10 \<or> (\<forall>j < length ds. ds ! (r - Suc i) \<le> ds ! j)"
      by blast
    then have "(r = ib \<and> (\<forall>e \<in> set (d # ds). best \<le> e)) \<or>
         (i \<le> r \<and> r - i < length (d # ds) \<and> (d # ds) ! (r - i) < best \<and>
          (\<forall>j < r - i. (d # ds) ! (r - i) < (d # ds) ! j \<and> \<not> sqrt ((d # ds) ! j) < 1 / 10 ^ 10) \<and>
          (sqrt ((d # ds) ! (r - i)) < 1 / 10 ^ 10 \<or> (\<forall>j < length (d # ds). (d # ds) ! (r - i) \<le> (d # ds) ! j)))"
    proof cases
      case none
      then show ?thesis using worse by simp
    next
      case later
      then obtain k where k: "r - i = Suc k" "r - Suc i = k"
        by (cases "r - i") auto
      have "\<forall>j < Suc k. ds ! k < (d # ds) ! j \<and> \<not> sqrt ((d # ds) ! j) < 1 / 10 ^ 10"
        using later(3,4) far worse k by (auto simp: nth_Cons split: nat.splits)
      moreover have "sqrt (ds ! k) < 1 / 10 ^ 10 \<or> (\<forall>j < Suc (length ds). ds ! k \<le> (d # ds) ! j)"
        using later(3,5) worse k by (auto simp: nth_Cons split: nat.splits)
      ultimately show ?thesis
        using later(1,2,3) k by simp
    qed
    then show ?thesis
      unfolding res by (simp add: d_def ds_def)
  qed
qed

text \<open>
  C9, as the code has it. For a reference vector of the right dimension, when some
  observation lies at a squared distance below \<open>1e10\<close>, the bound the scan starts from,
  the selected root \<open>r\<close> is an observation that is strictly nearer than every observation
  before it, none of which is within \<open>1e-10\<close> of the vector; and either \<open>r\<close> itself is
  within \<open>1e-10\<close> (the scan stopped there) or no observation is nearer than \<open>r\<close>. So the
  root is the first observation within \<open>1e-10\<close> if there is one, and the first minimiser
  of the squared distance otherwise.
\<close>

theorem iroot_via_xroot_first_index:
  assumes dim: "adata_n_vars s = length xroot"
    and near: "list_ex (\<lambda>x. sq_dist x xroot < 10 ^ 10) (adata_X s)"
  shows "\<exists>s' r. set_iroot_via_xroot s xroot = Inr s' \<and> s_iroot s' = Some r \<and>
           r < length (adata_X s) \<and>
           list_all (\<lambda>j. sq_dist (adata_X s ! r) xroot < sq_dist (adata_X s ! j) xroot \<and>
                         \<not> sqrt (sq_dist (adata_X s ! j) xroot) < 1 / 10 ^ 10) [0..<r] \<and>
           (sqrt (sq_dist (adata_X s ! r) xroot) < 1 / 10 ^ 10 \<or>
            list_all (\<lambda>x. sq_dist (adata_X s ! r) xroot \<le> sq_dist x xroot) (adata_X s))"
proof -
  define r where "r = iroot_scan (adata_X s) xroot 0 (10 ^ 10) 0"
  define ds where "ds = map (\<lambda>x. sq_dist x xroot) (adata_X s)"
  have run: "set_iroot_via_xroot s xroot = Inr (s\<lparr> s_iroot := Some r \<rparr>)"
    using dim by (simp add: set_iroot_via_xroot_def r_def)
  from near have "\<not> (\<forall>d \<in> set ds. 10 ^ 10 \<le> d)"
    by (force simp: list_ex_iff ds_def not_le)
  with iroot_scan_spec [OF sqrt_sentinel, of "adata_X s" xroot 0 0, folded r_def ds_def]
  have r: "r < length ds"
    and before: "\<forall>j < r. ds ! r < ds ! j \<and> \<not> sqrt (ds ! j) < 1 / 10 ^ 10"
    and stop: "sqrt (ds ! r) < 1 / 10 ^ 10 \<or> (\<forall>j < length ds. ds ! r \<le> ds ! j)"
    by auto
  have len: "length ds = length (adata_X s)"
    by (simp add: ds_def)
  have nth: "ds ! j = sq_dist (adata_X s ! j) xroot" if "j < length (adata_X s)" for j
    using that by (simp add: ds_def)
  have "list_all (\<lambda>j. sq_dist (adata_X s ! r) xroot < sq_dist (adata_X s ! j) xroot \<and>
                         \<not> sqrt (sq_dist (adata_X s ! j) xroot) < 1 / 10 ^ 10) [0..<r]"
    using before r len by (simp add: list_all_iff nth)
  moreover have "sqrt (sq_dist (adata_X s ! r) xroot) < 1 / 10 ^ 10 \<or>
            list_all (\<lambda>x. sq_dist (adata_X s ! r) xroot \<le> sq_dist x xroot) (adata_X s)"
    using stop r len by (auto simp: list_all_length nth)
  ultimately show ?thesis
    using run r len by simp
qed

text \<open>
  The theorem at three observations at distance 2, 1, 1 from the reference vector: the
  root is the second observation, the first of the two nearest.
\<close>

theorem iroot_via_xroot_first_index_witness:
  "adata_n_vars (init_neighbors 3 1 [[2], [1], [1]]) = length [0 :: real] \<and>
   list_ex (\<lambda>x. sq_dist x [0] < 10 ^ 10) (adata_X (init_neighbors 3 1 [[2], [1], [1]])) \<and>
   map_sum id s_iroot (set_iroot_via_xroot (init_neighbors 3 1 [[2], [1], [1]]) [0]) = Inr (Some 1)"
proof -
  let ?s = "init_neighbors 3 1 [[2], [1], [1]]"
  have dim: "adata_n_vars ?s = length [0 :: real]"
    by (simp add: init_neighbors_def)
  have near: "list_ex (\<lambda>x. sq_dist x [0] < 10 ^ 10) (adata_X ?s)"
    by (simp add: init_neighbors_def sq_dist_def)
  have "map_sum id s_iroot (set_iroot_via_xroot ?s [0]) = Inr (Some 1)"
    using iroot_via_xroot_first_index [OF dim near]
    by (simp add: set_iroot_via_xroot_def init_neighbors_def sq_dist_def)
  with dim near show ?thesis by blast
qed

text \<open>
  Against C9 as stated. The scan stops at the first observation within \<open>1e-10\<close> although
  the next one is nearer (distance 0); and when no squared distance is below the initial
  bound \<open>1e10\<close> the root stays 0 although the second observation is nearer.
\<close>

theorem iroot_via_xroot_not_the_minimum_counterexample:
  "map_sum id s_iroot (set_iroot_via_xroot (init_neighbors 2 1 [[1 / 10 ^ 11], [0]]) [0]) = Inr (Some 0) \<and>
   sq_dist [0] [0] < sq_dist [1 / 10 ^ 11] [0] \<and>
   map_sum id s_iroot (set_iroot_via_xroot (init_neighbors 2 1 [[10 ^ 6], [10 ^ 5]]) [0]) = Inr (Some 0) \<and>
   sq_dist [10 ^ 5] [0] < sq_dist [10 ^ 6] [0]"
proof -
  have d: "sq_dist [1 / 10 ^ 11] [0] = (1 / 10 ^ 11)\<^sup>2"
    by (simp add: sq_dist_def power2_eq_square)
  have "sqrt ((1 / 10 ^ 11)\<^sup>2) = (1 / 10 ^ 11 :: real)"
    by (simp only: real_sqrt_abs) simp
  then have near: "sqrt (sq_dist [1 / 10 ^ 11] [0]) < 1 / 10 ^ 10"
    by (simp only: d) simp
  have small: "sq_dist [1 / 10 ^ 11] [0] < 10 ^ 10"
    by (simp add: sq_dist_def)
  have a: "iroot_scan [[1 / 10 ^ 11], [0]] [0] 0 (10 ^ 10) 0 = 0"
    using near small by (simp only: iroot_scan.simps Let_def if_True)
  have b: "iroot_scan [[10 ^ 6], [10 ^ 5]] [0] 0 (10 ^ 10) 0 = 0"
    by (simp add: sq_dist_def)
  have c: "sq_dist [0] [0] < sq_dist [1 / 10 ^ 11] [0]"
    by (simp add: sq_dist_def)
  have e: "sq_dist [10 ^ 5] [0] < sq_dist [10 ^ 6] [0]"
    by (simp add: sq_dist_def)
  show ?thesis
    using a b c e by (simp add: set_iroot_via_xroot_def init_neighbors_def)
qed

subsection \<open>The forest of random projection trees\<close>

text \<open>
  The generator applied to the flat form of any non-empty forest yields no tree: its
  first lookup \<^verbatim>\<open>rp_forest_dict[prop]\<close> is for the character \<open>h\<close>, which is no key.
\<close>

lemma rp_forest_generate_of_make_forest_dict:
  assumes "forest \<noteq> []"
  shows "\<exists>d. make_forest_dict forest = Inr d \<and> rp_forest_generate d = ([], Some (KeyError ''h''))"
proof -
  define d where "d = map_of (map (\<lambda>prop.
                  (prop, \<lparr> fp_start = starts_from 0 (map (\<lambda>t. length (getattr_tree t prop)) forest),
                           fp_data = concat (map (\<lambda>t. getattr_tree t prop) forest) \<rparr>))
                [''hyperplanes'', ''offsets'', ''children'', ''indices''])"
  have mk: "make_forest_dict forest = Inr d"
    using assms by (simp add: make_forest_dict_def d_def)
  have h: "lookup_prop d ''h'' = Inl (KeyError ''h'')"
    by (simp add: lookup_prop_def d_def)
  obtain p where p: "lookup_prop d ''hyperplanes'' = Inr p"
    by (simp add: lookup_prop_def d_def)
  have slices: "tree_slices d (map (\<lambda>c. [c]) ''hyperplanes'') i b = Inl (KeyError ''h'')" for i b
    by (simp add: tree_slices_def h)
  have "generate_trees d (map (\<lambda>c. [c]) ''hyperplanes'') is n = ([], Some (KeyError ''h''))" for "is" n
    using slices [of _ True] slices [of _ False] by (cases "is") simp_all
  then have "rp_forest_generate d = ([], Some (KeyError ''h''))"
    by (simp add: rp_forest_generate_def FlatTree_fields_def p Let_def)
  with mk show ?thesis by blast
qed

lemma length_starts_from: "length (starts_from s szs) = length szs"
  by (induction szs arbitrary: s) simp_all

lemma nth_starts_from: "i < length szs \<Longrightarrow> starts_from s szs ! i = s + sum_list (take i szs)"
proof (induction szs arbitrary: s i)
  case Nil
  then show ?case by simp
next
  case (Cons sz szs)
  then show ?case by (cases i) simp_all
qed

lemma drop_concat_rows:
  "i \<le> length xss \<Longrightarrow> drop (sum_list (take i (map length xss))) (concat xss) = concat (drop i xss)"
proof (induction xss arbitrary: i)
  case Nil
  then show ?case by simp
next
  case (Cons xs xss)
  then show ?case by (cases i) simp_all
qed

lemma tree_slice_middle:
  assumes "Suc i < length xss"
  shows "take (starts_from 0 (map length xss) ! Suc i - starts_from 0 (map length xss) ! i)
           (drop (starts_from 0 (map length xss) ! i) (concat xss)) = xss ! i"
proof -
  from assms have i: "i < length xss" by simp
  have "starts_from 0 (map length xss) ! Suc i - starts_from 0 (map length xss) ! i = length (xss ! i)"
    using assms i by (simp add: nth_starts_from take_Suc_conv_app_nth)
  moreover have "drop (starts_from 0 (map length xss) ! i) (concat xss) = concat (drop i xss)"
    using i by (simp add: nth_starts_from drop_concat_rows)
  moreover have "drop i xss = xss ! i # drop (Suc i) xss"
    using i by (simp add: Cons_nth_drop_Suc)
  ultimately show ?thesis by simp
qed

lemma tree_slice_last:
  assumes "xss \<noteq> []"
  shows "drop (starts_from 0 (map length xss) ! (length xss - 1)) (concat xss) = xss ! (length xss - 1)"
proof -
  from assms have i: "length xss - 1 < length xss" by simp
  then have "drop (starts_from 0 (map length xss) ! (length xss - 1)) (concat xss)
      = concat (drop (length xss - 1) xss)"
    by (simp add: nth_starts_from drop_concat_rows)
  moreover have "drop (length xss - 1) xss = [xss ! (length xss - 1)]"
    using i by (metis Cons_nth_drop_Suc One_nat_def Suc_pred drop_all length_greater_0_conv assms order_refl)
  ultimately show ?thesis by simp
qed

lemma lookup_prop_make_forest_dict:
  assumes "make_forest_dict forest = Inr d" and "prop \<in> set FlatTree_fields"
  shows "lookup_prop d prop =
     Inr \<lparr> fp_start = starts_from 0 (map length (map (\<lambda>t. getattr_tree t prop) forest)),
           fp_data = concat (map (\<lambda>t. getattr_tree t prop) forest) \<rparr>"
  using assms
  by (auto simp: make_forest_dict_def FlatTree_fields_def lookup_prop_def comp_def split: if_splits)

lemma FlatTree_getattr: "FlatTree (map (getattr_tree t) FlatTree_fields) = Inr t"
  by (simp add: FlatTree_def FlatTree_fields_def getattr_tree_def)

lemma tree_slices_middle:
  assumes mk: "make_forest_dict forest = Inr d" and i: "Suc i < length forest"
  shows "tree_slices d FlatTree_fields (int i) False = Inr (map (getattr_tree (forest ! i)) FlatTree_fields)"
proof -
  have "(case lookup_prop d pr of
          Inl e \<Rightarrow> Inl e
        | Inr p \<Rightarrow>
            (case py_index (fp_start p) (int i) of
               Inl e \<Rightarrow> Inl e
             | Inr start \<Rightarrow>
                 if False then Inr (drop start (fp_data p))
                 else (case py_index (fp_start p) (int i + 1) of
                         Inl e \<Rightarrow> Inl e
                       | Inr stop \<Rightarrow> Inr (take (stop - start) (drop start (fp_data p))))))
      = Inr (getattr_tree (forest ! i) pr)" if "pr \<in> set FlatTree_fields" for pr
  proof -
    define xss where "xss = map (\<lambda>t. getattr_tree t pr) forest"
    have len: "Suc i < length xss" using i by (simp add: xss_def)
    have a: "py_index (starts_from 0 (map length xss)) (int i) = Inr (starts_from 0 (map length xss) ! i)"
      using len by (simp add: py_index_def length_starts_from)
    have "nat (1 + int i) = Suc i" "nat (int i + 1) = Suc i" by simp_all
    then have b: "py_index (starts_from 0 (map length xss)) (int i + 1)
        = Inr (starts_from 0 (map length xss) ! Suc i)"
      using len by (simp add: py_index_def length_starts_from)
    have "xss ! i = getattr_tree (forest ! i) pr"
      using i by (simp add: xss_def)
    then show ?thesis
      using tree_slice_middle [OF len] a b
      by (simp add: lookup_prop_make_forest_dict [OF mk that] xss_def [symmetric])
  qed
  then show ?thesis
    unfolding tree_slices_def by (intro mapM_err_Inr) simp
qed

lemma tree_slices_last:
  assumes mk: "make_forest_dict forest = Inr d" and ne: "forest \<noteq> []"
  shows "tree_slices d FlatTree_fields (int (length forest) - 1) True
     = Inr (map (getattr_tree (forest ! (length forest - 1))) FlatTree_fields)"
proof -
  have "(case lookup_prop d pr of
          Inl e \<Rightarrow> Inl e
        | Inr p \<Rightarrow>
            (case py_index (fp_start p) (int (length forest) - 1) of
               Inl e \<Rightarrow> Inl e
             | Inr start \<Rightarrow>
                 if True then Inr (drop start (fp_data p))
                 else (case py_index (fp_start p) (int (length forest) - 1 + 1) of
                         Inl e \<Rightarrow> Inl e
                       | Inr stop \<Rightarrow> Inr (take (stop - start) (drop start (fp_data p))))))
      = Inr (getattr_tree (forest ! (length forest - 1)) pr)" if "pr \<in> set FlatTree_fields" for pr
  proof -
    define xss where "xss = map (\<lambda>t. getattr_tree t pr) forest"
    have len: "length xss = length forest" and xne: "xss \<noteq> []"
      using ne by (simp_all add: xss_def)
    from xne obtain m where m: "length xss = Suc m"
      by (cases xss) simp_all
    have a: "py_index (starts_from 0 (map length xss)) (int (length forest) - 1)
        = Inr (starts_from 0 (map length xss) ! (length xss - 1))"
      unfolding len [symmetric] m by (simp add: py_index_def length_starts_from m)
    have "xss ! (length xss - 1) = getattr_tree (forest ! (length forest - 1)) pr"
      using ne len by (simp add: xss_def)
    then show ?thesis
      using tree_slice_last [OF xne] a
      by (simp add: lookup_prop_make_forest_dict [OF mk that] xss_def [symmetric])
  qed
  then show ?thesis
    unfolding tree_slices_def by (intro mapM_err_Inr) simp
qed

lemma generate_trees_all_fields:
  assumes mk: "make_forest_dict forest = Inr d" and ne: "forest \<noteq> []"
    and k: "k \<le> length forest - 1"
  shows "generate_trees d FlatTree_fields (map int [k..<length forest - 1]) (int (length forest) - 1)
     = (drop k forest, None)"
  using k
proof (induction "length forest - 1 - k" arbitrary: k)
  case 0
  then have k: "k = length forest - 1" by simp
  have "drop (length forest - 1) forest = [forest ! (length forest - 1)]"
    using ne by (metis Cons_nth_drop_Suc One_nat_def Suc_pred drop_all length_greater_0_conv
        diff_less zero_less_one order_refl)
  then show ?case
    by (simp add: k tree_slices_last [OF mk ne] FlatTree_getattr)
next
  case (Suc m)
  then have lt: "k < length forest - 1" and step: "m = length forest - 1 - Suc k"
    and next_ok: "Suc k \<le> length forest - 1"
    by simp_all
  from lt have sk: "Suc k < length forest" by simp
  have up: "[k..<length forest - 1] = k # [Suc k..<length forest - 1]"
    using lt by (simp add: upt_conv_Cons)
  have dr: "drop k forest = forest ! k # drop (Suc k) forest"
    using sk by (simp add: Cons_nth_drop_Suc)
  show ?case
    using tree_slices_middle [OF mk sk] Suc.hyps(1) [OF step next_ok] unfolding up dr
    by (simp add: FlatTree_getattr)
qed

text \<open>
  With the four field names in place of the characters of the first one, the generator
  returns the forest that was flattened.
\<close>

lemma forest_round_trip_with_all_fields:
  assumes "forest \<noteq> []"
  shows "\<exists>d. make_forest_dict forest = Inr d \<and>
           generate_trees d FlatTree_fields (map int [0..<length forest - 1]) (int (length forest) - 1)
             = (forest, None)"
proof -
  from assms obtain d where mk: "make_forest_dict forest = Inr d"
    by (simp add: make_forest_dict_def)
  with generate_trees_all_fields [OF mk assms, of 0] show ?thesis by simp
qed

text \<open>
  C8 fails: for a forest of two trees, flattening and regenerating raises KeyError 'h'
  at the first tree instead of yielding the two trees. The flat form itself is sound, as
  the previous lemma shows.
\<close>

theorem forest_round_trip_raises:
  "map_sum id rp_forest_generate
     (make_forest_dict
        [\<lparr> t_hyperplanes = [1, 2 :: nat], t_offsets = [3], t_children = [4], t_indices = [5] \<rparr>,
         \<lparr> t_hyperplanes = [6], t_offsets = [7], t_children = [8], t_indices = [9] \<rparr>])
     = Inr ([], Some (KeyError ''h'')) \<and>
   map_sum id rp_forest_generate
     (make_forest_dict
        [\<lparr> t_hyperplanes = [1, 2 :: nat], t_offsets = [3], t_children = [4], t_indices = [5] \<rparr>,
         \<lparr> t_hyperplanes = [6], t_offsets = [7], t_children = [8], t_indices = [9] \<rparr>])
     \<noteq> Inr ([\<lparr> t_hyperplanes = [1, 2 :: nat], t_offsets = [3], t_children = [4], t_indices = [5] \<rparr>,
              \<lparr> t_hyperplanes = [6], t_offsets = [7], t_children = [8], t_indices = [9] \<rparr>], None)"
  by (simp add: make_forest_dict_def rp_forest_generate_def FlatTree_fields_def lookup_prop_def
      tree_slices_def getattr_tree_def Let_def)

end
